theory Spec2Isabelle
  imports Main "HOL-Library.Word" "HOL-Library.List_Lexorder" "HOL-Library.Char_ord"
    "HOL-Library.Sublist"
begin

unbundle bit_operations_syntax

section \<open>Record model (types.h)\<close>

text \<open>
  \<^verbatim>\<open>ScanResult\<close>, \<^verbatim>\<open>ScanProgress\<close> and \<^verbatim>\<open>ItemRecord\<close> of types.h. An
  \<^verbatim>\<open>int64_t\<close> is a 64-bit word and an \<^verbatim>\<open>int\<close> a 32-bit word, with sums that
  wrap around; where the source compares them as signed numbers the model reads them
  with \<open>sint\<close>.

  The item record is polymorphic in the type of its \<open>parent\<close> column: the C++ struct
  holds a \<^verbatim>\<open>std::string\<close> (\<open>ItemRecord\<close>), a row of the SQL table \<^verbatim>\<open>items\<close> holds
  a nullable text (\<open>Row\<close>, \<open>None\<close> is SQL NULL).
\<close>

record ScanResult =
  sizeBytes :: "64 word"
  fileCount :: "32 word"
  folderCount :: "32 word"
  latestMs :: "64 word"

record ScanProgress =
  runId :: string
  itemsScanned :: "32 word"
  currentPath :: string
  state :: string
  message :: string

record 'p Item =
  path :: string
  parent :: 'p
  type :: string
  sizeBytes :: "64 word"
  fileCount :: "32 word"
  folderCount :: "32 word"
  lastWriteUtc :: string
  scannedUtc :: string
  depth :: "32 word"
  runId :: string

type_synonym ItemRecord = "string Item"
type_synonym Row = "string option Item"

section \<open>The store (database.cc)\<close>

subsection \<open>State\<close>

text \<open>
  A \<^verbatim>\<open>Database\<close> object is its connection pointer \<^verbatim>\<open>db_\<close> (\<open>db_ptr\<close>, true when it is not
  null) and the content of the table \<^verbatim>\<open>items\<close> of the database file, a list of rows
  in rowid order. The table lives in the file, so it is there whether or not the
  connection is open.
\<close>

record Database =
  db_ptr :: bool
  items :: "Row list"

subsection \<open>Binding a record to the upsert statement\<close>

text \<open>
  Every text parameter is bound with \<^verbatim>\<open>sqlite3_bind_text(stmt, i, s.c_str(), -1, ...)\<close>:
  length \<^verbatim>\<open>-1\<close> makes SQLite read the buffer up to its first zero byte. The parent is
  bound to NULL when the string is empty.
\<close>

definition c_str :: "string \<Rightarrow> string" where
  "c_str s = takeWhile (\<lambda>c. c \<noteq> CHR 0x00) s"

definition bindItem :: "ItemRecord \<Rightarrow> Row" where
  "bindItem item =
     \<lparr>path = c_str (path item),
      parent = (if parent item = [] then None else Some (c_str (parent item))),
      type = c_str (type item),
      sizeBytes = Item.sizeBytes item,
      fileCount = Item.fileCount item,
      folderCount = Item.folderCount item,
      lastWriteUtc = c_str (lastWriteUtc item),
      scannedUtc = c_str (scannedUtc item),
      depth = depth item,
      runId = c_str (Item.runId item)\<rparr>"

text \<open>
  Reading a row back: every column is copied, a NULL parent becomes the empty string
  (\<^verbatim>\<open>rec.parent = parentPtr ? parentPtr : ""\<close>).
\<close>

definition readRow :: "Row \<Rightarrow> ItemRecord" where
  "readRow r =
     \<lparr>path = path r,
      parent = (case parent r of None \<Rightarrow> [] | Some p \<Rightarrow> p),
      type = type r,
      sizeBytes = Item.sizeBytes r,
      fileCount = Item.fileCount r,
      folderCount = Item.folderCount r,
      lastWriteUtc = lastWriteUtc r,
      scannedUtc = scannedUtc r,
      depth = depth r,
      runId = Item.runId r\<rparr>"

subsection \<open>The upsert statement\<close>

text \<open>
  \<^verbatim>\<open>INSERT INTO items ... ON CONFLICT(path) DO UPDATE SET parent=excluded.parent, ...,
  scannedUtc=CASE WHEN excluded.scannedUtc = '' THEN items.scannedUtc
                  ELSE excluded.scannedUtc END, ...\<close>:
  \<open>onConflict existing excluded\<close> is the row after the update. The \<^verbatim>\<open>path\<close> column is
  not assigned; it is the conflicting key, equal in both rows.
\<close>

definition onConflict :: "Row \<Rightarrow> Row \<Rightarrow> Row" where
  "onConflict existing excluded =
     existing
       \<lparr>parent := parent excluded,
        type := type excluded,
        sizeBytes := Item.sizeBytes excluded,
        fileCount := Item.fileCount excluded,
        folderCount := Item.folderCount excluded,
        lastWriteUtc := lastWriteUtc excluded,
        scannedUtc := (if scannedUtc excluded = [] then scannedUtc existing
                       else scannedUtc excluded),
        depth := depth excluded,
        runId := Item.runId excluded\<rparr>"

fun upsertRow :: "Row \<Rightarrow> Row list \<Rightarrow> Row list" where
  "upsertRow e [] = [e]"
| "upsertRow e (r # rs) =
     (if path r = path e then onConflict r e # rs else r # upsertRow e rs)"

text \<open>
  The loop of \<^verbatim>\<open>Database::upsertItems\<close> between \<^verbatim>\<open>BEGIN TRANSACTION\<close> and
  \<^verbatim>\<open>COMMIT\<close>: an item whose type is neither \<^verbatim>\<open>"File"\<close> nor \<^verbatim>\<open>"Folder"\<close> is passed over
  by \<^verbatim>\<open>continue\<close>, every other item is bound and the statement stepped. No bound value
  but the parent is NULL, so no column constraint of the schema can reject the row.
\<close>

fun upsertLoop :: "ItemRecord list \<Rightarrow> Row list \<Rightarrow> Row list" where
  "upsertLoop [] t = t"
| "upsertLoop (item # rest) t =
     (if type item \<noteq> ''File'' \<and> type item \<noteq> ''Folder'' then upsertLoop rest t
      else upsertLoop rest (upsertRow (bindItem item) t))"

definition upsertItems :: "ItemRecord list \<Rightarrow> Database \<Rightarrow> Database" where
  "upsertItems its db =
     (if \<not> db_ptr db \<or> its = [] then db else db\<lparr>items := upsertLoop its (items db)\<rparr>)"

text \<open>
  The same function as the sequence of what it does on the connection, in program
  order: nothing when the store is not open or the batch is empty; otherwise
  \<^verbatim>\<open>beginTransaction()\<close>, then for each item of the batch either the \<^verbatim>\<open>continue\<close>
  of the kind test, which is the first statement of the loop body, or the step of the
  statement with the bound row, then \<^verbatim>\<open>commitTransaction()\<close>. \<open>applyAction\<close> is the
  effect of one action on the table.
\<close>

datatype UpsertAction =
    BeginTransaction
  | Skipped ItemRecord
  | Stepped Row
  | CommitTransaction

fun loopActions :: "ItemRecord list \<Rightarrow> UpsertAction list" where
  "loopActions [] = []"
| "loopActions (item # rest) =
     (if type item \<noteq> ''File'' \<and> type item \<noteq> ''Folder'' then Skipped item # loopActions rest
      else Stepped (bindItem item) # loopActions rest)"

definition upsertItemsActions :: "ItemRecord list \<Rightarrow> Database \<Rightarrow> UpsertAction list" where
  "upsertItemsActions its db =
     (if \<not> db_ptr db \<or> its = [] then []
      else BeginTransaction # loopActions its @ [CommitTransaction])"

fun applyAction :: "Row list \<Rightarrow> UpsertAction \<Rightarrow> Row list" where
  "applyAction t (Stepped r) = upsertRow r t"
| "applyAction t a = t"

subsection \<open>Queries\<close>

text \<open>
  \<^verbatim>\<open>ORDER BY path ASC\<close> compares text bytewise (the default collation), which is the
  lexicographic order on \<open>char list\<close>; \<^verbatim>\<open>ORDER BY sizeBytes DESC\<close> compares signed
  64-bit integers. SQLite leaves the order of rows with equal keys open; the model keeps
  them in table order (a stable sort). \<^verbatim>\<open>LIMIT n\<close> with negative \<open>n\<close> is no limit,
  \<^verbatim>\<open>OFFSET n\<close> with negative \<open>n\<close> is no offset.
\<close>

definition orderBy :: "string \<Rightarrow> Row list \<Rightarrow> Row list" where
  "orderBy sortBy rows =
     (if sortBy = ''name_asc'' then sort_key path rows
      else sort_key (\<lambda>r. - sint (Item.sizeBytes r)) rows)"

definition sqlLimit :: "int \<Rightarrow> int \<Rightarrow> 'a list \<Rightarrow> 'a list" where
  "sqlLimit limit offset rows =
     (let rest = drop (nat offset) rows
      in if limit < 0 then rest else take (nat limit) rest)"

definition getItemByPath :: "string \<Rightarrow> Database \<Rightarrow> ItemRecord option" where
  "getItemByPath p db =
     (if \<not> db_ptr db then None
      else map_option readRow (find (\<lambda>r. path r = c_str p) (items db)))"

definition getChildren ::
  "string option \<Rightarrow> int \<Rightarrow> int \<Rightarrow> string \<Rightarrow> bool \<Rightarrow> Database \<Rightarrow> ItemRecord list" where
  "getChildren par limit offset sortBy includeFiles db =
     (if \<not> db_ptr db then []
      else map readRow (sqlLimit limit offset (orderBy sortBy
             (filter (\<lambda>r. (case par of None \<Rightarrow> parent r = None
                                       | Some p \<Rightarrow> parent r = Some (c_str p))
                           \<and> (includeFiles \<or> type r = ''Folder''))
                     (items db)))))"

text \<open>
  The \<^verbatim>\<open>LIKE\<close> operator of SQLite with its default settings (\<^verbatim>\<open>database.cc\<close> sets
  no \<^verbatim>\<open>case_sensitive_like\<close> pragma and gives no \<^verbatim>\<open>ESCAPE\<close>). The engine reads
  pattern and text as UTF-8, character by character, the way its function
  \<^verbatim>\<open>sqlite3Utf8Read\<close> does:
  \<^item> a byte below \<^verbatim>\<open>0xC0\<close> is a character by itself;
  \<^item> a byte from \<^verbatim>\<open>0xC0\<close> on starts a character: its low bits (\<open>utf8Trans1\<close>, the
    table \<^verbatim>\<open>sqlite3Utf8Trans1\<close>) are followed by the low six bits of every
    continuation byte (\<^verbatim>\<open>10xxxxxx\<close>) that comes next, however many, in 32-bit
    arithmetic;
  \<^item> a value so read that is below \<^verbatim>\<open>0x80\<close>, a surrogate, or \<^verbatim>\<open>0xFFFE\<close> or
    \<^verbatim>\<open>0xFFFF\<close> is replaced by \<^verbatim>\<open>0xFFFD\<close>.
  So two texts that differ as byte strings can be the same sequence of characters: a
  lead byte without continuation reads as \<^verbatim>\<open>0xFFFD\<close> whichever lead byte it is.
\<close>

definition byteOf :: "char \<Rightarrow> 32 word" where
  "byteOf c = of_nat (of_char c)"

definition utf8Trans1 :: "32 word \<Rightarrow> 32 word" where
  "utf8Trans1 b =
     (if b < 0xE0 then b AND 0x1F
      else if b < 0xF0 then b AND 0x0F
      else if b < 0xF8 then b AND 0x07
      else if b < 0xFC then b AND 0x03
      else if b < 0xFE then b AND 0x01
      else 0)"

fun utf8Cont :: "32 word \<Rightarrow> 32 word list \<Rightarrow> 32 word \<times> 32 word list" where
  "utf8Cont c [] = (c, [])"
| "utf8Cont c (b # bs) =
     (if b AND 0xC0 = 0x80 then utf8Cont (push_bit 6 c + (0x3F AND b)) bs else (c, b # bs))"

definition utf8Fix :: "32 word \<Rightarrow> 32 word" where
  "utf8Fix c =
     (if c < 0x80 \<or> c AND 0xFFFFF800 = 0xD800 \<or> c AND 0xFFFFFFFE = 0xFFFE then 0xFFFD
      else c)"

function utf8Chars :: "32 word list \<Rightarrow> 32 word list" where
  "utf8Chars [] = []"
| "utf8Chars (b # bs) =
     (if b < 0xC0 then b # utf8Chars bs
      else utf8Fix (fst (utf8Cont (utf8Trans1 b) bs))
             # utf8Chars (snd (utf8Cont (utf8Trans1 b) bs)))"
  by pat_completeness auto
termination
proof (relation "measure length")
  show "wf (measure length)" by simp
next
  have shorter: "length (snd (utf8Cont c bs)) \<le> length bs" for c bs
    by (induction bs arbitrary: c) (auto intro: le_SucI)
  fix b :: "32 word" and bs :: "32 word list"
  show "(bs, b # bs) \<in> measure length" by simp
  show "(snd (utf8Cont (utf8Trans1 b) bs), b # bs) \<in> measure length"
    using shorter [of "utf8Trans1 b" bs] by simp
qed

definition sqlChars :: "string \<Rightarrow> 32 word list" where
  "sqlChars s = utf8Chars (map byteOf s)"

text \<open>
  The comparison of \<^verbatim>\<open>patternCompare\<close> on the characters so read: \<^verbatim>\<open>%\<close> in the
  pattern matches any run of characters, \<^verbatim>\<open>_\<close> any one character, and every other
  pattern character matches itself, or, both being below \<^verbatim>\<open>0x80\<close>, the character
  that \<^verbatim>\<open>sqlite3Tolower\<close> maps to the same letter.

  The engine refuses a pattern of more than 50000 bytes with an error instead of an
  answer (\<^verbatim>\<open>SQLITE_MAX_LIKE_PATTERN_LENGTH\<close>); \<open>sqlLike\<close> is the operator on the
  patterns it accepts, and the property of the root query below is stated for
  stores whose patterns stay within that length.
\<close>

definition sqlite3Tolower :: "32 word \<Rightarrow> 32 word" where
  "sqlite3Tolower c = (if 0x41 \<le> c \<and> c \<le> 0x5A then c + 0x20 else c)"

definition sameChar :: "32 word \<Rightarrow> 32 word \<Rightarrow> bool" where
  "sameChar c c2 =
     (c = c2 \<or> (sqlite3Tolower c = sqlite3Tolower c2 \<and> c < 0x80 \<and> c2 < 0x80))"

fun patternCompare :: "32 word list \<Rightarrow> 32 word list \<Rightarrow> bool" where
  "patternCompare [] [] = True"
| "patternCompare [] (c2 # s) = False"
| "patternCompare (c # p) [] = (c = 0x25 \<and> patternCompare p [])"
| "patternCompare (c # p) (c2 # s) =
     (if c = 0x25 then patternCompare p (c2 # s) \<or> patternCompare (c # p) s
      else (sameChar c c2 \<or> c = 0x5F) \<and> patternCompare p s)"

definition sqlLike :: "string \<Rightarrow> string \<Rightarrow> bool" where
  "sqlLike pat s = patternCompare (sqlChars pat) (sqlChars s)"

text \<open>
  \<^verbatim>\<open>SELECT * FROM items WHERE parent IS NULL OR (parent NOT IN (SELECT path FROM items)
  AND NOT EXISTS (SELECT 1 FROM items r WHERE r.parent IS NULL
                  AND items.path LIKE r.path || '%')) ORDER BY ... LIMIT ?\<close>.
  No stored path is NULL, so \<^verbatim>\<open>NOT IN\<close> is plain non-membership.
\<close>

definition isRoot :: "Row list \<Rightarrow> Row \<Rightarrow> bool" where
  "isRoot t i =
     (case parent i of
        None \<Rightarrow> True
      | Some p \<Rightarrow>
          p \<notin> set (map path t)
          \<and> \<not> list_ex (\<lambda>r. parent r = None \<and> sqlLike (path r @ ''%'') (path i)) t)"

definition getRoots :: "int \<Rightarrow> string \<Rightarrow> Database \<Rightarrow> ItemRecord list" where
  "getRoots limit sortBy db =
     (if \<not> db_ptr db then []
      else map readRow (sqlLimit limit 0 (orderBy sortBy
             (filter (isRoot (items db)) (items db)))))"


definition getTop :: "string \<Rightarrow> int \<Rightarrow> Database \<Rightarrow> ItemRecord list" where
  "getTop ty limit db =
     (if \<not> db_ptr db then []
      else map readRow (sqlLimit limit 0 (orderBy ''size_desc''
             (filter (\<lambda>r. type r = c_str ty) (items db)))))"

subsection \<open>Management\<close>

text \<open>
  \<^verbatim>\<open>open\<close> returns at once on an open connection; otherwise \<^verbatim>\<open>sqlite3_open\<close> either
  fails (\<open>ok = False\<close>: the pointer is reset to null, the result is \<^verbatim>\<open>false\<close>) or
  succeeds, and \<^verbatim>\<open>CREATE TABLE IF NOT EXISTS\<close> keeps the rows of the file.
  \<^verbatim>\<open>reset\<close> drops and recreates the table on an open connection.
\<close>

definition open_db :: "bool \<Rightarrow> Database \<Rightarrow> bool \<times> Database" where
  "open_db ok db =
     (if db_ptr db then (True, db)
      else if \<not> ok then (False, db\<lparr>db_ptr := False\<rparr>)
      else (True, db\<lparr>db_ptr := True\<rparr>))"

definition close_db :: "Database \<Rightarrow> Database" where
  "close_db db = (if db_ptr db then db\<lparr>db_ptr := False\<rparr> else db)"

definition reset :: "Database \<Rightarrow> Database" where
  "reset db = (if db_ptr db then db\<lparr>items := []\<rparr> else db)"

definition vacuum :: "Database \<Rightarrow> Database" where
  "vacuum db = db"

section \<open>The scanner (scanner.cc)\<close>

subsection \<open>The file system as the scanner observes it\<close>

text \<open>
  One value of \<open>DirEntry\<close> is one entry that a \<^verbatim>\<open>fs::directory_iterator\<close> yields,
  with the answers of the calls the scanner makes on it. The first argument is
  \<^verbatim>\<open>entry.path().string()\<close>.
  \<^item> \<open>RegularFile p fsize lwt\<close>: \<^verbatim>\<open>is_regular_file()\<close> holds; \<open>fsize\<close> is the result
    of \<^verbatim>\<open>file_size()\<close> and \<open>lwt\<close> that of \<^verbatim>\<open>fileTimeMs(last_write_time())\<close>,
    \<open>None\<close> when the call throws.
  \<^item> \<open>Directory p entries ok\<close>: \<^verbatim>\<open>is_directory()\<close> holds; iterating \<open>p\<close> yields
    \<open>entries\<close> and then ends (\<open>ok\<close>) or throws (\<open>\<not> ok\<close>; a directory that cannot
    be opened at all is \<open>Directory p [] False\<close>).
  \<^item> \<open>Other p\<close>: neither a regular file nor a directory.
  \<^item> \<open>Inaccessible p\<close>: the type query itself throws.
  The tree is finite: a cycle of symbolic links, which the scanner would follow without
  end, is outside the model.
\<close>

datatype DirEntry =
    RegularFile string "64 word option" "64 word option"
  | Directory string "DirEntry list" bool
  | Other string
  | Inaccessible string

text \<open>
  What the scanner takes from its surroundings: the calendar conversion behind
  \<^verbatim>\<open>toIsoString\<close>, the reading of the system clock (taken as one value for the whole
  scan), and \<^verbatim>\<open>fs::path::parent_path\<close> of the standard library.
\<close>

record Env =
  toIsoString :: "64 word \<Rightarrow> string"
  nowMs :: "64 word"
  parent_path :: "string \<Rightarrow> string"

definition zeroResult :: ScanResult where
  "zeroResult = \<lparr>ScanResult.sizeBytes = 0, fileCount = 0, folderCount = 0, latestMs = 0\<rparr>"

text \<open>\<^verbatim>\<open>std::max\<close> on \<^verbatim>\<open>int64_t\<close>: \<^verbatim>\<open>(a < b) ? b : a\<close>, a signed comparison.\<close>

definition max64 :: "64 word \<Rightarrow> 64 word \<Rightarrow> 64 word" where
  "max64 a b = (if sint a < sint b then b else a)"

definition MIN_FILE_SIZE_FOR_DB :: "64 word" where
  "MIN_FILE_SIZE_FOR_DB = 100 * 1024"

definition PROGRESS_INTERVAL :: int where
  "PROGRESS_INTERVAL = 5000"

definition getParent :: "Env \<Rightarrow> string \<Rightarrow> string" where
  "getParent env p =
     (if parent_path env p \<noteq> [] then
        (let par = parent_path env p in if par = [] \<or> par = p then [] else par)
      else [])"

subsection \<open>Shallow scan\<close>

fun statDirShallow :: "DirEntry list \<Rightarrow> ScanResult \<Rightarrow> ScanResult" where
  "statDirShallow [] result = result"
| "statDirShallow (RegularFile p None lwt # es) result = statDirShallow es result"
| "statDirShallow (RegularFile p (Some fsize) None # es) result =
     statDirShallow es
       (result\<lparr>ScanResult.sizeBytes := ScanResult.sizeBytes result + fsize,
               ScanResult.fileCount := ScanResult.fileCount result + 1\<rparr>)"
| "statDirShallow (RegularFile p (Some fsize) (Some lwt) # es) result =
     statDirShallow es
       (result\<lparr>ScanResult.sizeBytes := ScanResult.sizeBytes result + fsize,
               ScanResult.fileCount := ScanResult.fileCount result + 1,
               latestMs := max64 (latestMs result) lwt\<rparr>)"
| "statDirShallow (Directory p sub ok # es) result =
     statDirShallow es
       (result\<lparr>ScanResult.folderCount := ScanResult.folderCount result + 1\<rparr>)"
| "statDirShallow (Other p # es) result = statDirShallow es result"
| "statDirShallow (Inaccessible p # es) result = statDirShallow es result"

text \<open>The running totals of \<^verbatim>\<open>scanShallow\<close> and the vector \<^verbatim>\<open>items\<close>.\<close>

record ShallowAcc =
  totalSize :: "64 word"
  totalFiles :: "32 word"
  totalFolders :: "32 word"
  latest :: "64 word"
  collected :: "ItemRecord list"

definition shallowFileRec ::
  "Env \<Rightarrow> string \<Rightarrow> string \<Rightarrow> string \<Rightarrow> 64 word \<Rightarrow> 64 word \<Rightarrow> ItemRecord" where
  "shallowFileRec env startPath rid childPath fsize lwt =
     \<lparr>path = childPath, parent = startPath, type = ''File'', sizeBytes = fsize,
      fileCount = 1, folderCount = 0, lastWriteUtc = toIsoString env lwt,
      scannedUtc = [], depth = 1, runId = rid\<rparr>"

definition shallowDirRec ::
  "Env \<Rightarrow> string \<Rightarrow> string \<Rightarrow> string \<Rightarrow> ScanResult \<Rightarrow> ItemRecord" where
  "shallowDirRec env startPath rid childPath dirStats =
     \<lparr>path = childPath, parent = startPath, type = ''Folder'',
      sizeBytes = ScanResult.sizeBytes dirStats,
      fileCount = ScanResult.fileCount dirStats,
      folderCount = ScanResult.folderCount dirStats,
      lastWriteUtc = toIsoString env
        (if 0 < sint (latestMs dirStats) then latestMs dirStats else nowMs env),
      scannedUtc = [], depth = 1, runId = rid\<rparr>"

fun shallowLoop ::
  "Env \<Rightarrow> string \<Rightarrow> string \<Rightarrow> DirEntry list \<Rightarrow> ShallowAcc \<Rightarrow> ShallowAcc" where
  "shallowLoop env startPath rid [] acc = acc"
| "shallowLoop env startPath rid (RegularFile p (Some fsize) (Some lwt) # es) acc =
     shallowLoop env startPath rid es
       (acc\<lparr>totalSize := totalSize acc + fsize,
            totalFiles := totalFiles acc + 1,
            latest := max64 (latest acc) lwt,
            collected := collected acc @ [shallowFileRec env startPath rid p fsize lwt]\<rparr>)"
| "shallowLoop env startPath rid (RegularFile p fsize lwt # es) acc =
     shallowLoop env startPath rid es acc"
| "shallowLoop env startPath rid (Directory p sub ok # es) acc =
     (let dirStats = statDirShallow sub zeroResult
      in shallowLoop env startPath rid es
           (acc\<lparr>totalSize := totalSize acc + ScanResult.sizeBytes dirStats,
                totalFolders := totalFolders acc + 1,
                latest := max64 (latest acc) (latestMs dirStats),
                collected := collected acc @ [shallowDirRec env startPath rid p dirStats]\<rparr>))"
| "shallowLoop env startPath rid (Other p # es) acc = shallowLoop env startPath rid es acc"
| "shallowLoop env startPath rid (Inaccessible p # es) acc =
     shallowLoop env startPath rid es acc"

text \<open>
  \<open>scanShallow env startPath rid entries ok rootLwt\<close>: \<open>entries\<close> and \<open>ok\<close> are the
  listing of \<open>startPath\<close> as in \<open>Directory\<close>; \<open>rootLwt\<close> is the modification time of
  \<open>startPath\<close> itself, \<open>None\<close> when it does not exist or the query throws. When the
  iteration throws, the outer handler returns what was collected, without the record
  of \<open>startPath\<close>.
\<close>

definition scanShallow ::
  "Env \<Rightarrow> string \<Rightarrow> string \<Rightarrow> DirEntry list \<Rightarrow> bool \<Rightarrow> 64 word option \<Rightarrow> ItemRecord list" where
  "scanShallow env startPath rid entries ok rootLwt =
     (let acc = shallowLoop env startPath rid entries
                  \<lparr>totalSize = 0, totalFiles = 0, totalFolders = 0, latest = 0,
                   collected = []\<rparr>
      in if \<not> ok then collected acc
         else
           (let latest' = (case rootLwt of None \<Rightarrow> latest acc
                                         | Some t \<Rightarrow> max64 (latest acc) t);
                rootRec =
                  \<lparr>path = startPath, parent = getParent env startPath, type = ''Folder'',
                   sizeBytes = totalSize acc, fileCount = totalFiles acc,
                   folderCount = totalFolders acc,
                   lastWriteUtc = toIsoString env
                     (if 0 < sint latest' then latest' else nowMs env),
                   scannedUtc = [], depth = 0, runId = rid\<rparr>
            in collected acc @ [rootRec]))"

subsection \<open>Deep scan\<close>

text \<open>
  The state a deep scan works on: the two atomic counters of the \<^verbatim>\<open>Scanner\<close> object
  (\<^verbatim>\<open>itemsScanned_\<close>, \<^verbatim>\<open>lastProgressUpdate_\<close>), the number of times the cancellation
  flag has been loaded, and the progress events handed to the callback so far.

  A run fixes the run id, the cancellation flag and the callback. The flag is written
  by another thread; \<open>cancelled run k\<close> is the value that load number \<open>k\<close> observes.
  \<open>progressCb run\<close> tells whether the \<^verbatim>\<open>std::function\<close> holds a callback. The
  parameter \<^verbatim>\<open>skipScannedAfter\<close> is never read by the source and is left out.
\<close>

record ScanState =
  m_itemsScanned :: "32 word"
  m_lastProgressUpdate :: "32 word"
  loads :: nat
  reported :: "ScanProgress list"

record Run =
  rid :: string
  cancelled :: "nat \<Rightarrow> bool"
  progressCb :: bool

definition flagSet :: "Run \<Rightarrow> ScanState \<Rightarrow> bool" where
  "flagSet run st = cancelled run (loads st)"

definition afterLoad :: "ScanState \<Rightarrow> ScanState" where
  "afterLoad st = st\<lparr>loads := Suc (loads st)\<rparr>"

definition deepFileRec ::
  "Env \<Rightarrow> Run \<Rightarrow> string \<Rightarrow> 32 word \<Rightarrow> string \<Rightarrow> 64 word \<Rightarrow> 64 word \<Rightarrow> ItemRecord" where
  "deepFileRec env run startPath dep childPath fsize lwt =
     \<lparr>path = childPath, parent = startPath, type = ''File'', sizeBytes = fsize,
      fileCount = 1, folderCount = 0, lastWriteUtc = toIsoString env lwt,
      scannedUtc = toIsoString env (nowMs env), depth = dep + 1, runId = rid run\<rparr>"

definition addFile :: "ScanResult \<Rightarrow> 64 word \<Rightarrow> 64 word \<Rightarrow> ScanResult" where
  "addFile result fsize lwt =
     result\<lparr>ScanResult.sizeBytes := ScanResult.sizeBytes result + fsize,
            ScanResult.fileCount := ScanResult.fileCount result + 1,
            latestMs := max64 (latestMs result) lwt\<rparr>"

definition addSubResult :: "ScanResult \<Rightarrow> ScanResult \<Rightarrow> ScanResult" where
  "addSubResult result subResult =
     result\<lparr>ScanResult.sizeBytes := ScanResult.sizeBytes result + ScanResult.sizeBytes subResult,
            ScanResult.fileCount := ScanResult.fileCount result + ScanResult.fileCount subResult,
            ScanResult.folderCount :=
              ScanResult.folderCount result + (ScanResult.folderCount subResult + 1),
            latestMs := max64 (latestMs result) (latestMs subResult)\<rparr>"

text \<open>
  Progress reporting at the end of the loop body. On the scanning thread alone the
  \<^verbatim>\<open>compare_exchange_strong\<close> finds the value it has just loaded and succeeds.
  The difference of the two counts is taken in 32 bits and read as a signed number.
  The callback is taken to return normally.
\<close>

definition reportProgress :: "Run \<Rightarrow> string \<Rightarrow> ScanState \<Rightarrow> ScanState" where
  "reportProgress run startPath st =
     (let current = m_itemsScanned st; lastUpdate = m_lastProgressUpdate st
      in if PROGRESS_INTERVAL \<le> sint (current - lastUpdate) then
           st\<lparr>m_lastProgressUpdate := current,
              reported :=
                (if progressCb run then
                   reported st @
                     [\<lparr>ScanProgress.runId = rid run, itemsScanned = current,
                       currentPath = startPath, state = ''running'', message = []\<rparr>]
                 else reported st)\<rparr>
         else st)"

text \<open>
  \<open>scanFullAsync env run startPath dep entries st\<close> is the call on a directory whose
  iteration yields \<open>entries\<close>; whether the iteration then ends or throws makes no
  difference, the handler returns \<^verbatim>\<open>result\<close> either way. \<open>scanEntries\<close> is the
  \<^verbatim>\<open>for\<close> loop on the entries still to come, with \<^verbatim>\<open>result\<close> and \<^verbatim>\<open>batchItems\<close>
  as accumulator, and \<open>scanEntry\<close> is the \<^verbatim>\<open>try\<close> block of the loop body for one
  entry: an entry whose query throws leaves the block by \<^verbatim>\<open>continue\<close>, before
  anything is counted and without the progress check. \<^verbatim>\<open>batchItems\<close> is a local
  vector: the function returns \<^verbatim>\<open>result\<close> alone.
\<close>

fun scanFullAsync ::
    "Env \<Rightarrow> Run \<Rightarrow> string \<Rightarrow> 32 word \<Rightarrow> DirEntry list \<Rightarrow> ScanState \<Rightarrow> ScanResult \<times> ScanState"
  and scanEntries ::
    "Env \<Rightarrow> Run \<Rightarrow> string \<Rightarrow> 32 word \<Rightarrow> DirEntry list \<Rightarrow> ScanResult \<times> ItemRecord list
       \<Rightarrow> ScanState \<Rightarrow> (ScanResult \<times> ItemRecord list) \<times> ScanState"
  and scanEntry ::
    "Env \<Rightarrow> Run \<Rightarrow> string \<Rightarrow> 32 word \<Rightarrow> DirEntry \<Rightarrow> ScanResult \<times> ItemRecord list
       \<Rightarrow> ScanState \<Rightarrow> (ScanResult \<times> ItemRecord list) \<times> ScanState" where
  "scanFullAsync env run startPath dep entries st =
     (if flagSet run st then (zeroResult, afterLoad st)
      else
        (let (acc, st') = scanEntries env run startPath dep entries (zeroResult, []) (afterLoad st)
         in (fst acc, st')))"
| "scanEntries env run startPath dep [] acc st = (acc, st)"
| "scanEntries env run startPath dep (e # es) acc st =
     (if flagSet run st then (acc, afterLoad st)
      else
        (let (acc', st') = scanEntry env run startPath dep e acc (afterLoad st)
         in scanEntries env run startPath dep es acc' st'))"
| "scanEntry env run startPath dep (RegularFile childPath (Some fsize) (Some lwt)) acc st =
     (let result = addFile (fst acc) fsize lwt;
          st1 = st\<lparr>m_itemsScanned := m_itemsScanned st + 1\<rparr>;
          batchItems =
            (if MIN_FILE_SIZE_FOR_DB \<le> fsize
             then snd acc @ [deepFileRec env run startPath dep childPath fsize lwt]
             else snd acc)
      in ((result, batchItems), reportProgress run startPath st1))"
| "scanEntry env run startPath dep (RegularFile childPath fsize lwt) acc st = (acc, st)"
| "scanEntry env run startPath dep (Directory childPath sub ok) acc st =
     (let (subResult, st1) = scanFullAsync env run childPath (dep + 1) sub st
      in ((addSubResult (fst acc) subResult, snd acc), reportProgress run startPath st1))"
| "scanEntry env run startPath dep (Other childPath) acc st =
     (acc, reportProgress run startPath st)"
| "scanEntry env run startPath dep (Inaccessible childPath) acc st = (acc, st)"

section \<open>Notions used by the properties\<close>

subsection \<open>Histories of the store\<close>

text \<open>
  The operations of \<^verbatim>\<open>Database\<close> that can change the object or the table. The queries
  (\<open>getItemByPath\<close>, \<open>getChildren\<close>, \<open>getRoots\<close>, \<open>getTop\<close>) only read.
\<close>

datatype StoreOp =
    OpOpen bool
  | OpClose
  | OpUpsert "ItemRecord list"
  | OpReset
  | OpVacuum

fun applyOp :: "StoreOp \<Rightarrow> Database \<Rightarrow> Database" where
  "applyOp (OpOpen ok) db = snd (open_db ok db)"
| "applyOp OpClose db = close_db db"
| "applyOp (OpUpsert its) db = upsertItems its db"
| "applyOp OpReset db = reset db"
| "applyOp OpVacuum db = vacuum db"

fun runOps :: "StoreOp list \<Rightarrow> Database \<Rightarrow> Database" where
  "runOps [] db = db"
| "runOps (op # ops) db = runOps ops (applyOp op db)"

definition storedKind :: "string \<Rightarrow> bool" where
  "storedKind k = (k = ''File'' \<or> k = ''Folder'')"

definition kindInv :: "Database \<Rightarrow> bool" where
  "kindInv db = list_all (\<lambda>r. storedKind (type r)) (items db)"

subsection \<open>Text without zero bytes\<close>

text \<open>
  A record whose text fields hold no zero byte is bound as it is: \<open>c_str\<close> leaves
  each field unchanged. Paths, ISO timestamps and run ids are such texts.
\<close>

definition nulFree :: "ItemRecord \<Rightarrow> bool" where
  "nulFree n =
     list_all (\<lambda>s. list_all (\<lambda>c. c \<noteq> CHR 0x00) s)
       [path n, parent n, type n, lastWriteUtc n, scannedUtc n, Item.runId n]"

subsection \<open>The place of the kind test\<close>

text \<open>
  \<open>skipsBeforeTransaction acts\<close>: no item is passed over by the kind test once the
  transaction has begun, that is, every such item was dropped before.
\<close>

fun isSkipped :: "UpsertAction \<Rightarrow> bool" where
  "isSkipped (Skipped item) = True"
| "isSkipped a = False"

definition skipsBeforeTransaction :: "UpsertAction list \<Rightarrow> bool" where
  "skipsBeforeTransaction acts =
     list_all (\<lambda>a. \<not> isSkipped a) (dropWhile (\<lambda>a. a \<noteq> BeginTransaction) acts)"

subsection \<open>Roots\<close>

text \<open>
  \<open>specRoot\<close> is the root condition in the words of the specification: the node has no
  parent, or its parent is not a stored path and no other parentless node has a path
  that is a prefix of the node's path. \<open>ciRoot\<close> is the same condition with the prefix
  taken the way the engine compares text: \<open>ciPrefix p s\<close> holds when the characters
  of \<open>p\<close>, as the engine reads them, are the first characters of \<open>s\<close>, the letters
  \<^verbatim>\<open>A\<close> to \<^verbatim>\<open>Z\<close> and \<^verbatim>\<open>a\<close> to \<^verbatim>\<open>z\<close> compared without regard to case.
\<close>

definition specRoot :: "Row list \<Rightarrow> Row \<Rightarrow> bool" where
  "specRoot t i =
     (case parent i of
        None \<Rightarrow> True
      | Some p \<Rightarrow>
          p \<notin> path ` set t
          \<and> \<not> (\<exists>r \<in> set t. r \<noteq> i \<and> parent r = None \<and> prefix (path r) (path i)))"

fun charsPrefix :: "32 word list \<Rightarrow> 32 word list \<Rightarrow> bool" where
  "charsPrefix [] s = True"
| "charsPrefix (c # p) [] = False"
| "charsPrefix (c # p) (c2 # s) = (sameChar c c2 \<and> charsPrefix p s)"

definition ciPrefix :: "string \<Rightarrow> string \<Rightarrow> bool" where
  "ciPrefix p s = charsPrefix (sqlChars p) (sqlChars s)"

definition ciRoot :: "Row list \<Rightarrow> Row \<Rightarrow> bool" where
  "ciRoot t i =
     (case parent i of
        None \<Rightarrow> True
      | Some p \<Rightarrow>
          p \<notin> path ` set t
          \<and> \<not> (\<exists>r \<in> set t. r \<noteq> i \<and> parent r = None \<and> ciPrefix (path r) (path i)))"

text \<open>
  A path that can stand in front of \<^verbatim>\<open>%\<close> as a plain prefix pattern: it holds no
  wildcard, and with the \<^verbatim>\<open>%\<close> it is within the length that the engine accepts.
\<close>

definition wildcardFree :: "string \<Rightarrow> bool" where
  "wildcardFree p = list_all (\<lambda>c. c \<noteq> CHR ''%'' \<and> c \<noteq> CHR ''_'') p"

definition plainPattern :: "string \<Rightarrow> bool" where
  "plainPattern p = (wildcardFree p \<and> length p < 50000)"

text \<open>A folder row with the given path and parent, for the examples.\<close>

definition folderRow :: "string \<Rightarrow> string option \<Rightarrow> Row" where
  "folderRow p par =
     \<lparr>path = p, parent = par, type = ''Folder'', sizeBytes = 0, fileCount = 0,
      folderCount = 0, lastWriteUtc = ''2024-01-01T00:00:00.000Z'', scannedUtc = [],
      depth = 0, runId = ''r''\<rparr>"

subsection \<open>An environment and a fresh scanner for the examples\<close>

definition exampleEnv :: Env where
  "exampleEnv = \<lparr>toIsoString = (\<lambda>t. ''1970-01-01T00:00:00.000Z''), nowMs = 5,
                  parent_path = (\<lambda>p. ''/'')\<rparr>"

text \<open>The constructor \<^verbatim>\<open>Scanner()\<close> sets both counters to 0.\<close>

definition freshScanner :: ScanState where
  "freshScanner = \<lparr>m_itemsScanned = 0, m_lastProgressUpdate = 0, loads = 0, reported = []\<rparr>"


text \<open>A run that is never cancelled.\<close>

definition runToEnd :: Run where
  "runToEnd = \<lparr>rid = ''run-1'', cancelled = (\<lambda>k. False), progressCb = True\<rparr>"

subsection \<open>The content of a subtree\<close>

text \<open>
  \<open>filesIn es\<close> lists size and modification time of every regular file in the subtree
  with the entries \<open>es\<close>, subdirectories included, in the order of the walk. A file
  whose size or time cannot be read is not listed: the scanner passes it over. In a
  readable subtree every regular file is listed. \<open>foldersIn es\<close> counts the directories
  in the subtree, each subdirectory adding one for itself to the count of its content.
\<close>

fun filesOf :: "DirEntry \<Rightarrow> (64 word \<times> 64 word) list" where
  "filesOf (RegularFile p (Some fsize) (Some lwt)) = [(fsize, lwt)]"
| "filesOf (RegularFile p fsize lwt) = []"
| "filesOf (Directory p sub ok) = concat (map filesOf sub)"
| "filesOf (Other p) = []"
| "filesOf (Inaccessible p) = []"

fun foldersOf :: "DirEntry \<Rightarrow> nat" where
  "foldersOf (Directory p sub ok) = Suc (sum_list (map foldersOf sub))"
| "foldersOf e = 0"

definition filesIn :: "DirEntry list \<Rightarrow> (64 word \<times> 64 word) list" where
  "filesIn es = concat (map filesOf es)"

definition foldersIn :: "DirEntry list \<Rightarrow> nat" where
  "foldersIn es = sum_list (map foldersOf es)"

text \<open>The latest of the modification times of the listed files, and at least 0.\<close>

definition latestOr0 :: "(64 word \<times> 64 word) list \<Rightarrow> int" where
  "latestOr0 fs = foldr (\<lambda>f m. max (sint (snd f)) m) fs 0"

text \<open>
  \<open>agrees r' r fs n\<close>: the aggregate \<open>r'\<close> is \<open>r\<close> with the files \<open>fs\<close> and \<open>n\<close>
  folders added.
\<close>

definition agrees ::
  "ScanResult \<Rightarrow> ScanResult \<Rightarrow> (64 word \<times> 64 word) list \<Rightarrow> nat \<Rightarrow> bool" where
  "agrees r' r fs n =
     (ScanResult.sizeBytes r' = ScanResult.sizeBytes r + sum_list (map fst fs)
      \<and> ScanResult.fileCount r' = ScanResult.fileCount r + of_nat (length fs)
      \<and> ScanResult.folderCount r' = ScanResult.folderCount r + of_nat n
      \<and> sint (latestMs r') = max (sint (latestMs r)) (latestOr0 fs))"

subsection \<open>Progress events\<close>

text \<open>
  \<open>spaced l evs\<close>: each event of \<open>evs\<close> reports a count that is at least
  \<^verbatim>\<open>PROGRESS_INTERVAL\<close> above the count reported before it, \<open>l\<close> being the count
  reported last before \<open>evs\<close>. \<open>lastReported l evs\<close> is the count reported last
  after \<open>evs\<close>.
\<close>

fun spaced :: "32 word \<Rightarrow> ScanProgress list \<Rightarrow> bool" where
  "spaced l [] = True"
| "spaced l (e # es) =
     (PROGRESS_INTERVAL \<le> sint (itemsScanned e - l) \<and> spaced (itemsScanned e) es)"

fun lastReported :: "32 word \<Rightarrow> ScanProgress list \<Rightarrow> 32 word" where
  "lastReported l [] = l"
| "lastReported l (e # es) = lastReported (itemsScanned e) es"

text \<open>
  \<open>reports run st st'\<close>: from \<open>st\<close> to \<open>st'\<close> the callback has received the events
  \<open>new\<close>, all of them in state \<^verbatim>\<open>"running"\<close> with the run id of the run, spaced as
  above, and \<^verbatim>\<open>lastProgressUpdate_\<close> is the count reported last. Without a callback
  there is no event.
\<close>

definition reports :: "Run \<Rightarrow> ScanState \<Rightarrow> ScanState \<Rightarrow> bool" where
  "reports run st st' =
     (\<exists>new. reported st' = reported st @ new
        \<and> list_all (\<lambda>e. ScanProgress.state e = ''running'' \<and> ScanProgress.runId e = rid run) new
        \<and> (if progressCb run
            then spaced (m_lastProgressUpdate st) new
                 \<and> m_lastProgressUpdate st' = lastReported (m_lastProgressUpdate st) new
            else new = []))"

text \<open>How far the count is ahead of the count reported last.\<close>

definition lag :: "ScanState \<Rightarrow> int" where
  "lag st = sint (m_itemsScanned st - m_lastProgressUpdate st)"

definition keepsUp :: "Run \<Rightarrow> ScanState \<Rightarrow> ScanState \<Rightarrow> bool" where
  "keepsUp run st st' = (lag st < PROGRESS_INTERVAL \<longrightarrow> lag st' < PROGRESS_INTERVAL)"

text \<open>
  \<open>counted run fs st st'\<close>: from \<open>st\<close> to \<open>st'\<close> the counter \<^verbatim>\<open>itemsScanned_\<close> has
  gone up by the number of files scanned, which is at most the number of the files
  \<open>fs\<close> and is that number when the run is never cancelled.
\<close>

definition counted ::
  "Run \<Rightarrow> (64 word \<times> 64 word) list \<Rightarrow> ScanState \<Rightarrow> ScanState \<Rightarrow> bool" where
  "counted run fs st st' =
     (\<exists>n \<le> length fs. m_itemsScanned st' = m_itemsScanned st + of_nat n
         \<and> ((\<forall>k. \<not> cancelled run k) \<longrightarrow> n = length fs))"

subsection \<open>The children of a shallow scan\<close>

text \<open>
  \<open>sumsUp sp acc acc' children\<close>: from \<open>acc\<close> to \<open>acc'\<close> the loop of
  \<^verbatim>\<open>scanShallow\<close> has emitted the records \<open>children\<close>, each at depth 1 with parent
  \<open>sp\<close> and no scan timestamp, and has added their sizes to \<^verbatim>\<open>totalSize\<close>, the
  number of file records to \<^verbatim>\<open>totalFiles\<close> and the number of folder records to
  \<^verbatim>\<open>totalFolders\<close>.
\<close>

definition childOk :: "string \<Rightarrow> ItemRecord \<Rightarrow> bool" where
  "childOk sp c = (depth c = 1 \<and> parent c = sp \<and> scannedUtc c = [])"

definition sumsUp :: "string \<Rightarrow> ShallowAcc \<Rightarrow> ShallowAcc \<Rightarrow> ItemRecord list \<Rightarrow> bool" where
  "sumsUp sp acc acc' children =
     (collected acc' = collected acc @ children
      \<and> list_all (childOk sp) children
      \<and> totalSize acc' = totalSize acc + sum_list (map Item.sizeBytes children)
      \<and> totalFiles acc' =
          totalFiles acc + of_nat (length (filter (\<lambda>c. type c = ''File'') children))
      \<and> totalFolders acc' =
          totalFolders acc + of_nat (length (filter (\<lambda>c. type c = ''Folder'') children)))"

section \<open>Properties of the store\<close>

subsection \<open>Helper facts\<close>

lemma c_str_kinds: "c_str ''File'' = ''File''" "c_str ''Folder'' = ''Folder''"
  by (simp_all add: c_str_def)

lemma type_bindItem: "storedKind (type it) \<Longrightarrow> type (bindItem it) = type it"
  by (auto simp: bindItem_def c_str_kinds storedKind_def)

lemma onConflict_path: "path (onConflict r e) = path r"
  by (simp add: onConflict_def)

lemma onConflict_twice: "onConflict (onConflict r e) e = onConflict r e"
  by (simp add: onConflict_def)

lemma onConflict_self: "onConflict e e = e"
  by (simp add: onConflict_def)

lemma onConflict_same_key:
  "path r = path e \<Longrightarrow>
   onConflict r e =
     e\<lparr>scannedUtc := (if scannedUtc e = [] then scannedUtc r else scannedUtc e)\<rparr>"
  by (simp add: onConflict_def)

lemma upsertRow_idem: "upsertRow e (upsertRow e t) = upsertRow e t"
  by (induction t) (simp_all add: onConflict_path onConflict_twice onConflict_self)

lemma find_upsertRow_conflict:
  "find (\<lambda>r. path r = path e) t = Some old \<Longrightarrow>
   find (\<lambda>r. path r = path e) (upsertRow e t) = Some (onConflict old e)"
  by (induction t) (auto simp: onConflict_path)


lemma find_upsertRow_other:
  "k \<noteq> path e \<Longrightarrow> find (\<lambda>r. path r = k) (upsertRow e t) = find (\<lambda>r. path r = k) t"
  by (induction t) (auto simp: onConflict_path)

lemma upsertLoop_filter:
  "upsertLoop (filter (\<lambda>it. storedKind (type it)) its) t = upsertLoop its t"
  by (induction its arbitrary: t) (auto simp: storedKind_def)

lemma upsertLoop_no_stored_kind:
  "\<forall>it\<in>set its. \<not> storedKind (type it) \<Longrightarrow> upsertLoop its t = t"
  by (induction its arbitrary: t) (auto simp: storedKind_def)

lemma upsertRow_kind:
  "list_all (\<lambda>r. storedKind (type r)) t \<Longrightarrow> storedKind (type e)
   \<Longrightarrow> list_all (\<lambda>r. storedKind (type r)) (upsertRow e t)"
  by (induction t) (auto simp: onConflict_def)

lemma upsertLoop_kind:
  "list_all (\<lambda>r. storedKind (type r)) t
   \<Longrightarrow> list_all (\<lambda>r. storedKind (type r)) (upsertLoop its t)"
proof (induction its arbitrary: t)
  case Nil
  then show ?case by simp
next
  case (Cons it its)
  show ?case
  proof (cases "storedKind (type it)")
    case True
    then have "storedKind (type (bindItem it))"
      by (simp add: type_bindItem)
    from upsertRow_kind [OF Cons.prems this] Cons.IH True show ?thesis
      by (auto simp: storedKind_def)
  next
    case False
    then show ?thesis using Cons by (simp add: storedKind_def)
  qed
qed

lemma upsertItems_filter:
  "upsertItems its db = upsertItems (filter (\<lambda>it. storedKind (type it)) its) db"
proof (cases "filter (\<lambda>it. storedKind (type it)) its = []")
  case True
  then have "\<forall>it\<in>set its. \<not> storedKind (type it)"
    by (simp add: filter_empty_conv)
  then have "upsertLoop its (items db) = items db"
    by (rule upsertLoop_no_stored_kind)
  then show ?thesis using True by (simp add: upsertItems_def)
next
  case False
  then have "its \<noteq> []" by auto
  then show ?thesis using False by (simp add: upsertItems_def upsertLoop_filter)
qed

lemma applyOp_kindInv: "kindInv db \<Longrightarrow> kindInv (applyOp op db)"
  by (cases op)
     (auto simp: kindInv_def open_db_def close_db_def reset_def vacuum_def upsertItems_def
           intro: upsertLoop_kind)

lemma runOps_kindInv: "kindInv db \<Longrightarrow> kindInv (runOps ops db)"
  by (induction ops arbitrary: db) (simp_all add: applyOp_kindInv)

subsection \<open>Kinds of stored rows\<close>

lemma upsertLoop_fold:
  "upsertLoop its t =
     foldl (\<lambda>t it. upsertRow (bindItem it) t) t (filter (\<lambda>it. storedKind (type it)) its)"
  by (induction its arbitrary: t) (auto simp: storedKind_def)

lemma loopActions_map:
  "loopActions its =
     map (\<lambda>it. if storedKind (type it) then Stepped (bindItem it) else Skipped it) its"
  by (induction its) (auto simp: storedKind_def)

lemma foldl_loopActions: "foldl applyAction t (loopActions its) = upsertLoop its t"
  by (induction its arbitrary: t) auto

lemma upsertItems_actions:
  "items (upsertItems its db) = foldl applyAction (items db) (upsertItemsActions its db)"
  by (simp add: upsertItems_def upsertItemsActions_def foldl_loopActions)

lemma upsertItems_open:
  "db_ptr db \<Longrightarrow>
   items (upsertItems its db) =
     foldl (\<lambda>t it. upsertRow (bindItem it) t) (items db)
       (filter (\<lambda>it. storedKind (type it)) its)
   \<and> db_ptr (upsertItems its db)"
  by (cases its) (auto simp: upsertItems_def upsertLoop_fold storedKind_def)

text \<open>
  Claim C9, as stated, fails in one point: the rows of another kind are not dropped
  before the transaction. \<^verbatim>\<open>upsertItems\<close> begins the transaction with the whole
  batch in hand and passes over such a row inside the loop, by \<^verbatim>\<open>continue\<close>, between
  \<^verbatim>\<open>BEGIN TRANSACTION\<close> and \<^verbatim>\<open>COMMIT\<close>. For a batch of a symbolic link and a folder
  the actions are: begin, skip the link, step the folder, commit.
\<close>

theorem upsertItems_skips_inside_transaction_counterexample:
  "(let good = \<lparr>path = ''/a'', parent = [], type = ''Folder'', sizeBytes = 7, fileCount = 1,
                 folderCount = 0, lastWriteUtc = ''t'', scannedUtc = [], depth = 0,
                 runId = ''r''\<rparr>;
        bad = good\<lparr>path := ''/l'', type := ''Symlink''\<rparr>;
        db = \<lparr>db_ptr = True, items = []\<rparr>
    in upsertItemsActions [bad, good] db
         = [BeginTransaction, Skipped bad, Stepped (bindItem good), CommitTransaction]
       \<and> \<not> skipsBeforeTransaction (upsertItemsActions [bad, good] db))"
  by (simp add: upsertItemsActions_def skipsBeforeTransaction_def Let_def)

text \<open>
  Claim C9, amended. On an open store and a batch that is not empty, \<^verbatim>\<open>upsertItems\<close>
  begins a transaction, goes through the batch in order, passing over each item whose
  type is neither \<^verbatim>\<open>"File"\<close> nor \<^verbatim>\<open>"Folder"\<close> (the string the source uses for a
  directory) and stepping the upsert statement with every other item, and commits.
  The table afterwards is the table before with the upsert of each item of a stored
  kind applied, one after the other in the order of the batch; the items of another
  kind leave no trace, so the batch has the effect of the batch without them. Every
  row of the table then has one of the two kinds: the property holds of the empty
  table and is kept by every sequence of store operations.
\<close>

theorem upsertItems_skips_other_kinds:
  "(db_ptr db \<and> its \<noteq> [] \<longrightarrow>
      upsertItemsActions its db =
        BeginTransaction
        # map (\<lambda>it. if storedKind (type it) then Stepped (bindItem it) else Skipped it) its
        @ [CommitTransaction])
   \<and> items (upsertItems its db) = foldl applyAction (items db) (upsertItemsActions its db)
   \<and> (db_ptr db \<longrightarrow>
        items (upsertItems its db) =
          foldl (\<lambda>t it. upsertRow (bindItem it) t) (items db)
            (filter (\<lambda>it. storedKind (type it)) its)
        \<and> db_ptr (upsertItems its db))
   \<and> upsertItems its db = upsertItems (filter (\<lambda>it. storedKind (type it)) its) db
   \<and> kindInv (db\<lparr>items := []\<rparr>)
   \<and> (kindInv db \<longrightarrow> kindInv (runOps ops db))"
  using upsertItems_filter [of its db] runOps_kindInv [of db ops] upsertItems_open [of db its]
    upsertItems_actions [of its db]
  by (simp add: kindInv_def upsertItemsActions_def loopActions_map)

theorem upsertItems_skips_other_kinds_witness:
  "(let g1 = \<lparr>path = ''/a'', parent = [], type = ''Folder'', sizeBytes = 7, fileCount = 1,
               folderCount = 0, lastWriteUtc = ''t'', scannedUtc = [], depth = 0,
               runId = ''r''\<rparr>;
        g2 = g1\<lparr>path := ''/b'', type := ''File''\<rparr>;
        bad = g1\<lparr>path := ''/l'', type := ''Symlink''\<rparr>;
        db = \<lparr>db_ptr = True, items = []\<rparr>
    in db_ptr db \<and> [bad, g1, g2] \<noteq> [] \<and> kindInv db
       \<and> upsertItemsActions [bad, g1, g2] db
           = [BeginTransaction, Skipped bad, Stepped (bindItem g1), Stepped (bindItem g2),
              CommitTransaction]
       \<and> items (upsertItems [bad, g1, g2] db) = [bindItem g1, bindItem g2]
       \<and> map path (items (upsertItems [bad, g1, g2] db)) = [''/a'', ''/b'']
       \<and> upsertItems [bad, g1, g2] db = upsertItems [g1, g2] db
       \<and> kindInv (runOps [OpUpsert [bad, g1, g2], OpVacuum] db))"
proof -
  define g1 :: ItemRecord where
    "g1 = \<lparr>path = ''/a'', parent = [], type = ''Folder'', sizeBytes = 7, fileCount = 1,
           folderCount = 0, lastWriteUtc = ''t'', scannedUtc = [], depth = 0,
           runId = ''r''\<rparr>"
  define g2 where "g2 = g1\<lparr>path := ''/b'', type := ''File''\<rparr>"
  define bad where "bad = g1\<lparr>path := ''/l'', type := ''Symlink''\<rparr>"
  define db where "db = \<lparr>db_ptr = True, items = []\<rparr>"
  have op: "db_ptr db" and tbl: "items db = []" by (simp_all add: db_def)
  have ne: "[bad, g1, g2] \<noteq> []" by simp
  have inv: "kindInv db" by (simp add: db_def kindInv_def)
  have flt: "filter (\<lambda>it. storedKind (type it)) [bad, g1, g2] = [g1, g2]"
    by (simp add: bad_def g1_def g2_def storedKind_def)
  have mp: "map (\<lambda>it. if storedKind (type it) then Stepped (bindItem it) else Skipped it)
              [bad, g1, g2]
            = [Skipped bad, Stepped (bindItem g1), Stepped (bindItem g2)]"
    by (simp add: bad_def g1_def g2_def storedKind_def)
  have keys: "path (bindItem g1) = ''/a''" "path (bindItem g2) = ''/b''"
    by (simp_all add: g1_def g2_def bindItem_def c_str_def)
  note inst =
    upsertItems_skips_other_kinds [of db "[bad, g1, g2]" "[OpUpsert [bad, g1, g2], OpVacuum]",
      unfolded flt mp]
  from inst op ne
  have a: "upsertItemsActions [bad, g1, g2] db
           = [BeginTransaction, Skipped bad, Stepped (bindItem g1), Stepped (bindItem g2),
              CommitTransaction]"
    by simp
  from inst op have "items (upsertItems [bad, g1, g2] db)
      = foldl (\<lambda>t it. upsertRow (bindItem it) t) (items db) [g1, g2]"
    by blast
  then have t: "items (upsertItems [bad, g1, g2] db) = [bindItem g1, bindItem g2]"
    by (simp add: tbl keys)
  then have p: "map path (items (upsertItems [bad, g1, g2] db)) = [''/a'', ''/b'']"
    by (simp add: keys)
  from inst have e: "upsertItems [bad, g1, g2] db = upsertItems [g1, g2] db"
    by blast
  from inst inv have k: "kindInv (runOps [OpUpsert [bad, g1, g2], OpVacuum] db)"
    by blast
  from op ne inv a t p e k show ?thesis
    unfolding Let_def g1_def [symmetric] g2_def [symmetric] bad_def [symmetric]
      db_def [symmetric]
    by blast
qed

subsection \<open>Upsert is idempotent; the scan timestamp is sticky\<close>

lemma scannedUtc_readRow: "scannedUtc (readRow r) = scannedUtc r"
  by (simp add: readRow_def)

lemma readRow_update_scanned:
  "readRow (r\<lparr>scannedUtc := s\<rparr>) = (readRow r)\<lparr>scannedUtc := s\<rparr>"
  by (simp add: readRow_def)

lemma path_bindItem: "path (bindItem n) = c_str (path n)"
  by (simp add: bindItem_def)

lemma scannedUtc_bindItem: "scannedUtc (bindItem n) = c_str (scannedUtc n)"
  by (simp add: bindItem_def)

lemma c_str_id: "list_all (\<lambda>c. c \<noteq> CHR 0x00) s \<Longrightarrow> c_str s = s"
  by (auto simp: c_str_def takeWhile_eq_all_conv list_all_iff)

lemma readRow_bindItem: "nulFree n \<Longrightarrow> readRow (bindItem n) = n"
  by (cases "parent n") (simp_all add: nulFree_def readRow_def bindItem_def c_str_id)

lemma upsertItems_idem: "upsertItems [n] (upsertItems [n] db) = upsertItems [n] db"
  by (simp add: upsertItems_def upsertRow_idem)

lemma getItemByPath_conflict:
  assumes old: "getItemByPath (path n) db = Some old" and kind: "storedKind (type n)"
  shows "getItemByPath (path n) (upsertItems [n] db) =
     Some ((readRow (bindItem n))
             \<lparr>scannedUtc := (if c_str (scannedUtc n) = [] then scannedUtc old
                             else c_str (scannedUtc n))\<rparr>)"
proof -
  from old have op: "db_ptr db"
    by (auto simp: getItemByPath_def split: if_splits)
  from old op obtain r where
    r: "find (\<lambda>r. path r = path (bindItem n)) (items db) = Some r" and o: "old = readRow r"
    by (auto simp: getItemByPath_def path_bindItem)
  from r have key: "path r = path (bindItem n)"
    by (auto simp: find_Some_iff)
  have "find (\<lambda>r. path r = path (bindItem n)) (upsertRow (bindItem n) (items db))
        = Some (onConflict r (bindItem n))"
    using r by (rule find_upsertRow_conflict)
  then show ?thesis
    using op kind key o
    by (auto simp: getItemByPath_def upsertItems_def storedKind_def path_bindItem [symmetric]
          onConflict_same_key readRow_update_scanned scannedUtc_readRow scannedUtc_bindItem)
qed

text \<open>
  Claim C2. Upserting a record twice gives the store that upserting it once gives.
  When the store already holds a row for the path (\<open>getItemByPath\<close> returns \<open>old\<close>),
  the row read back after the upsert is the new record as it was bound, column by
  column, but for \<open>scannedUtc\<close>: the stored value stays when the incoming value is
  empty, and the incoming value replaces it otherwise. The bound record is the record
  itself when its texts hold no zero byte.
\<close>

theorem upsert_idempotent_sticky_scannedUtc:
  "upsertItems [n] (upsertItems [n] db) = upsertItems [n] db
   \<and> (storedKind (type n) \<and> getItemByPath (path n) db = Some old \<longrightarrow>
        getItemByPath (path n) (upsertItems [n] db) =
          Some ((readRow (bindItem n))
                  \<lparr>scannedUtc := (if c_str (scannedUtc n) = [] then scannedUtc old
                                  else c_str (scannedUtc n))\<rparr>))
   \<and> (nulFree n \<longrightarrow> readRow (bindItem n) = n \<and> c_str (scannedUtc n) = scannedUtc n)"
  using upsertItems_idem [of n db] getItemByPath_conflict [of n db old] readRow_bindItem [of n]
  by (auto simp: nulFree_def c_str_id)

theorem upsert_idempotent_sticky_scannedUtc_witness:
  "(let old = \<lparr>path = ''/a'', parent = [], type = ''Folder'', sizeBytes = 7, fileCount = 1,
                folderCount = 0, lastWriteUtc = ''t0'', scannedUtc = ''2024'', depth = 0,
                runId = ''r0''\<rparr>;
        n = \<lparr>path = ''/a'', parent = ''/'', type = ''Folder'', sizeBytes = 9, fileCount = 2,
              folderCount = 1, lastWriteUtc = ''t1'', scannedUtc = [], depth = 1,
              runId = ''r1''\<rparr>;
        db = \<lparr>db_ptr = True, items = [bindItem old]\<rparr>
    in storedKind (type n) \<and> nulFree n
       \<and> getItemByPath (path n) db = Some old
       \<and> upsertItems [n] (upsertItems [n] db) = upsertItems [n] db
       \<and> getItemByPath (path n) (upsertItems [n] db) = Some (n\<lparr>scannedUtc := ''2024''\<rparr>))"
proof -
  define old :: ItemRecord where
    "old = \<lparr>path = ''/a'', parent = [], type = ''Folder'', sizeBytes = 7, fileCount = 1,
            folderCount = 0, lastWriteUtc = ''t0'', scannedUtc = ''2024'', depth = 0,
            runId = ''r0''\<rparr>"
  define n :: ItemRecord where
    "n = \<lparr>path = ''/a'', parent = ''/'', type = ''Folder'', sizeBytes = 9, fileCount = 2,
          folderCount = 1, lastWriteUtc = ''t1'', scannedUtc = [], depth = 1,
          runId = ''r1''\<rparr>"
  define db where "db = \<lparr>db_ptr = True, items = [bindItem old]\<rparr>"
  have kind: "storedKind (type n)" by (simp add: n_def storedKind_def)
  have nf: "nulFree n" by (simp add: n_def nulFree_def)
  have got: "getItemByPath (path n) db = Some old"
    by (simp add: getItemByPath_def db_def n_def old_def bindItem_def readRow_def c_str_def)
  have empty: "c_str (scannedUtc n) = []" by (simp add: n_def c_str_def)
  have sc: "scannedUtc old = ''2024''" by (simp add: old_def)
  from upsert_idempotent_sticky_scannedUtc [of n db old] kind nf got
  have "upsertItems [n] (upsertItems [n] db) = upsertItems [n] db"
    and "getItemByPath (path n) (upsertItems [n] db) = Some (n\<lparr>scannedUtc := ''2024''\<rparr>)"
    by (simp_all add: empty sc)
  with kind nf got show ?thesis
    unfolding Let_def old_def [symmetric] n_def [symmetric] db_def [symmetric]
    by blast
qed

subsection \<open>Results of the queries as sets\<close>

lemma set_orderBy: "set (orderBy s rows) = set rows"
  by (simp add: orderBy_def)

lemma length_orderBy: "length (orderBy s rows) = length rows"
  by (simp add: orderBy_def)

lemma sqlLimit_all:
  "limit < 0 \<or> int (length rows) \<le> limit \<Longrightarrow> offset \<le> 0 \<Longrightarrow>
   sqlLimit limit offset rows = rows"
  by (auto simp: sqlLimit_def Let_def)





lemma getRoots_unlimited:
  assumes op: "db_ptr db" and lim: "limit < 0 \<or> int (length (items db)) \<le> limit"
  shows "set (getRoots limit sortBy db) = readRow ` {r \<in> set (items db). isRoot (items db) r}"
proof -
  let ?xs = "orderBy sortBy (filter (isRoot (items db)) (items db))"
  have "length ?xs \<le> length (items db)" by (simp add: length_orderBy)
  with lim have "limit < 0 \<or> int (length ?xs) \<le> limit" by linarith
  then have "sqlLimit limit 0 ?xs = ?xs" by (simp add: sqlLimit_all)
  then show ?thesis using op by (simp add: getRoots_def set_orderBy)
qed


subsection \<open>An empty parent is no parent\<close>



subsection \<open>Root inference\<close>

lemma utf8Cont_percent:
  "utf8Cont c (bs @ [0x25]) = (fst (utf8Cont c bs), snd (utf8Cont c bs) @ [0x25])"
  by (induction bs arbitrary: c) simp_all

lemma utf8Chars_percent: "utf8Chars (bs @ [0x25]) = utf8Chars bs @ [0x25]"
  by (induction bs rule: utf8Chars.induct) (simp_all add: utf8Cont_percent)

lemma byteOf_percent: "byteOf CHR ''%'' = 0x25"
  by (simp add: byteOf_def)

lemma byteOf_underscore: "byteOf CHR ''_'' = 0x5F"
  by (simp add: byteOf_def)

lemma sqlChars_percent: "sqlChars (p @ ''%'') = sqlChars p @ [0x25]"
  by (simp add: sqlChars_def utf8Chars_percent byteOf_percent)

lemma utf8Fix_ge: "0x80 \<le> utf8Fix c"
  by (auto simp: utf8Fix_def not_less)

lemma set_utf8Cont: "set (snd (utf8Cont c bs)) \<subseteq> set bs"
  by (induction bs arbitrary: c) auto

text \<open>A character read from bytes is one of the bytes or is not below \<^verbatim>\<open>0x80\<close>.\<close>

lemma set_utf8Chars: "x \<in> set (utf8Chars bs) \<Longrightarrow> x \<in> set bs \<or> 0x80 \<le> x"
proof (induction bs rule: utf8Chars.induct)
  case 1
  then show ?case by simp
next
  case (2 b bs)
  show ?case
  proof (cases "b < 0xC0")
    case True
    with 2 show ?thesis by auto
  next
    case False
    with 2 set_utf8Cont [of "utf8Trans1 b" bs] utf8Fix_ge [of "fst (utf8Cont (utf8Trans1 b) bs)"]
    show ?thesis by auto
  qed
qed

lemma byteOf_inj: "byteOf a = byteOf b \<Longrightarrow> a = b"
proof -
  assume "byteOf a = byteOf b"
  then have "unat (byteOf a) = unat (byteOf b)" by simp
  moreover have "unat (byteOf c) = of_char c" for c
  proof -
    have "(of_char c :: nat) < 256" by simp
    then have "(of_char c :: nat) < 2 ^ 32" by (rule less_trans) simp
    then show ?thesis unfolding byteOf_def by (simp add: unat_of_nat)
  qed
  ultimately have "(of_char a :: nat) = of_char b" by simp
  then show ?thesis by simp
qed

lemma sqlChars_no_wildcard:
  assumes "wildcardFree p"
  shows "0x25 \<notin> set (sqlChars p) \<and> 0x5F \<notin> set (sqlChars p)"
proof -
  have "x \<noteq> 0x25 \<and> x \<noteq> 0x5F" if x: "x \<in> set (sqlChars p)" for x
  proof -
    from x set_utf8Chars [of x "map byteOf p"]
    consider c where "c \<in> set p" "x = byteOf c" | "0x80 \<le> x"
      by (auto simp: sqlChars_def)
    then show ?thesis
    proof cases
      case 1
      from assms 1(1) have "c \<noteq> CHR ''%''" "c \<noteq> CHR ''_''"
        by (auto simp: wildcardFree_def list_all_iff)
      then have "byteOf c \<noteq> byteOf CHR ''%''" "byteOf c \<noteq> byteOf CHR ''_''"
        using byteOf_inj by blast+
      with 1(2) show ?thesis by (simp add: byteOf_percent byteOf_underscore)
    next
      case 2
      then show ?thesis by auto
    qed
  qed
  then show ?thesis by blast
qed

lemma patternCompare_percent: "patternCompare [0x25] s"
  by (induction s) simp_all

lemma patternCompare_prefix:
  "0x25 \<notin> set p \<Longrightarrow> 0x5F \<notin> set p \<Longrightarrow> patternCompare (p @ [0x25]) s = charsPrefix p s"
proof (induction p arbitrary: s)
  case Nil
  then show ?case by (simp add: patternCompare_percent)
next
  case (Cons c p)
  then have c: "c \<noteq> 0x25" "c \<noteq> 0x5F" and p: "0x25 \<notin> set p" "0x5F \<notin> set p"
    by auto
  show ?case
  proof (cases s)
    case Nil
    then show ?thesis using c by simp
  next
    case (Cons c2 s')
    then show ?thesis using c Cons.IH [OF p, of s'] by simp
  qed
qed

lemma sqlLike_prefix: "wildcardFree p \<Longrightarrow> sqlLike (p @ ''%'') s = ciPrefix p s"
  using sqlChars_no_wildcard [of p]
  by (simp add: sqlLike_def ciPrefix_def sqlChars_percent patternCompare_prefix)

lemma isRoot_ciRoot:
  assumes "list_all (\<lambda>r. parent r = None \<longrightarrow> plainPattern (path r)) t"
  shows "isRoot t i = ciRoot t i"
  using assms
  by (cases "parent i")
     (auto simp: isRoot_def ciRoot_def list_ex_iff list_all_iff plainPattern_def sqlLike_prefix)

text \<open>
  Claim C3, as stated, fails: the query compares paths with \<^verbatim>\<open>LIKE\<close>, which does not
  tell \<^verbatim>\<open>A\<close> from \<^verbatim>\<open>a\<close>. With the rows \<^verbatim>\<open>/A\<close> (no parent) and \<^verbatim>\<open>/a/b\<close>
  (parent \<^verbatim>\<open>/missing\<close>), the second row meets the stated condition (its parent is not
  stored and \<^verbatim>\<open>/A\<close> is no prefix of \<^verbatim>\<open>/a/b\<close>), and \<open>getRoots\<close> without a limit
  returns \<^verbatim>\<open>/A\<close> alone.
\<close>

theorem getRoots_prefix_counterexample:
  "specRoot [folderRow ''/A'' None, folderRow ''/a/b'' (Some ''/missing'')]
     (folderRow ''/a/b'' (Some ''/missing''))
   \<and> getRoots (- 1) ''name_asc''
        \<lparr>db_ptr = True,
         items = [folderRow ''/A'' None, folderRow ''/a/b'' (Some ''/missing'')]\<rparr>
      = [readRow (folderRow ''/A'' None)]"
  by code_simp

text \<open>
  Claim C3, amended. On an open store in which every path of a parentless row is free
  of the \<^verbatim>\<open>LIKE\<close> wildcards (\<^verbatim>\<open>%\<close>, \<^verbatim>\<open>_\<close>) and shorter than 50000 bytes, and with
  a limit that cuts nothing off, \<open>getRoots\<close> returns exactly the stored nodes that
  have no parent, or whose parent is not a stored path and whose path does not start
  with the path of another parentless node, where the two paths are compared as the
  engine compares text: character by character as it reads UTF-8 (bytes that are not
  well-formed UTF-8 read as the replacement character), and without regard to the
  case of ASCII letters.
\<close>

theorem getRoots_returns_inferred_roots:
  assumes "db_ptr db"
    and "limit < 0 \<or> int (length (items db)) \<le> limit"
    and "list_all (\<lambda>r. parent r = None \<longrightarrow> plainPattern (path r)) (items db)"
  shows "set (getRoots limit sortBy db) = readRow ` {i \<in> set (items db). ciRoot (items db) i}"
  using getRoots_unlimited [OF assms(1,2), of sortBy] isRoot_ciRoot [OF assms(3)]
  by simp

theorem getRoots_returns_inferred_roots_witness:
  "(let db = \<lparr>db_ptr = True,
               items = [folderRow ''/a'' None, folderRow ''/a/b'' (Some ''/a''),
                        folderRow ''/c'' (Some ''/missing'')]\<rparr>;
        db2 = \<lparr>db_ptr = True,
                items = [folderRow (''/caf'' @ [CHR 0xE9]) None,
                         folderRow (''/caf'' @ [CHR 0xE8] @ ''/x'') (Some ''/missing'')]\<rparr>
    in db_ptr db \<and> int (length (items db)) \<le> 200
       \<and> list_all (\<lambda>r. parent r = None \<longrightarrow> plainPattern (path r)) (items db)
       \<and> set (getRoots 200 ''name_asc'' db)
           = readRow ` {i \<in> set (items db). ciRoot (items db) i}
       \<and> map path (getRoots 200 ''name_asc'' db) = [''/a'', ''/c'']
       \<and> db_ptr db2 \<and> int (length (items db2)) \<le> 200
       \<and> list_all (\<lambda>r. parent r = None \<longrightarrow> plainPattern (path r)) (items db2)
       \<and> set (getRoots 200 ''name_asc'' db2)
           = readRow ` {i \<in> set (items db2). ciRoot (items db2) i}
       \<and> map path (getRoots 200 ''name_asc'' db2) = [''/caf'' @ [CHR 0xE9]])"
proof -
  define db where
    "db = \<lparr>db_ptr = True,
           items = [folderRow ''/a'' None, folderRow ''/a/b'' (Some ''/a''),
                    folderRow ''/c'' (Some ''/missing'')]\<rparr>"
  define db2 where
    "db2 = \<lparr>db_ptr = True,
            items = [folderRow (''/caf'' @ [CHR 0xE9]) None,
                     folderRow (''/caf'' @ [CHR 0xE8] @ ''/x'') (Some ''/missing'')]\<rparr>"
  have op: "db_ptr db" and op2: "db_ptr db2" by (simp_all add: db_def db2_def)
  have len: "int (length (items db)) \<le> 200" and len2: "int (length (items db2)) \<le> 200"
    by (simp_all add: db_def db2_def)
  have wf: "list_all (\<lambda>r. parent r = None \<longrightarrow> plainPattern (path r)) (items db)"
    by (simp add: db_def folderRow_def plainPattern_def wildcardFree_def)
  have wf2: "list_all (\<lambda>r. parent r = None \<longrightarrow> plainPattern (path r)) (items db2)"
    by (simp add: db2_def folderRow_def plainPattern_def wildcardFree_def)
  have paths: "map path (getRoots 200 ''name_asc'' db) = [''/a'', ''/c'']"
    unfolding db_def by code_simp
  have paths2: "map path (getRoots 200 ''name_asc'' db2) = [''/caf'' @ [CHR 0xE9]]"
    unfolding db2_def by code_simp
  from getRoots_returns_inferred_roots [OF op disjI2 [OF len] wf, of "''name_asc''"]
  have r: "set (getRoots 200 ''name_asc'' db)
           = readRow ` {i \<in> set (items db). ciRoot (items db) i}" .
  from getRoots_returns_inferred_roots [OF op2 disjI2 [OF len2] wf2, of "''name_asc''"]
  have r2: "set (getRoots 200 ''name_asc'' db2)
           = readRow ` {i \<in> set (items db2). ciRoot (items db2) i}" .
  from op len wf paths r op2 len2 wf2 paths2 r2 show ?thesis
    unfolding Let_def db_def [symmetric] db2_def [symmetric] by blast
qed

subsection \<open>A store that is not open\<close>

text \<open>
  Claim C7, as stated, fails: on a store that is not open the operations of
  \<^verbatim>\<open>Database\<close> return in the ordinary way, with the results an open store with an empty
  table gives. \<open>upsertItems\<close> returns (it has no result) and the batch is lost;
  \<open>getItemByPath\<close> returns the null pointer of "not found"; the list queries return
  the empty list. Nothing in a result tells that the store was not open.
\<close>

theorem not_open_looks_like_empty_counterexample:
  "(let closed = \<lparr>db_ptr = False, items = [folderRow ''/a'' None]\<rparr>;
        opened = \<lparr>db_ptr = True, items = []\<rparr>
    in upsertItems [readRow (folderRow ''/b'' None)] closed = closed
       \<and> getItemByPath ''/a'' closed = getItemByPath ''/a'' opened
       \<and> getChildren None 200 0 ''size_desc'' True closed
           = getChildren None 200 0 ''size_desc'' True opened
       \<and> getRoots 200 ''size_desc'' closed = getRoots 200 ''size_desc'' opened
       \<and> getTop ''Folder'' 100 closed = getTop ''Folder'' 100 opened)"
  by (simp add: upsertItems_def getItemByPath_def getChildren_def getRoots_def getTop_def
        sqlLimit_def orderBy_def)

text \<open>
  Claim C7, amended. When the store is not open (never opened, closed, or the attempt
  to open it has failed), every operation of \<^verbatim>\<open>Database\<close> returns at once and leaves
  the table alone: \<open>upsertItems\<close>, \<open>reset\<close> and \<open>vacuum\<close> change nothing,
  \<open>getItemByPath\<close> finds nothing, and \<open>getChildren\<close>, \<open>getRoots\<close> and \<open>getTop\<close>
  return the empty list.
\<close>

theorem not_open_operations_return_empty:
  assumes "\<not> db_ptr db"
  shows "\<not> db_ptr (snd (open_db False db))
    \<and> upsertItems its db = db
    \<and> getItemByPath p db = None
    \<and> getChildren par limit offset sortBy includeFiles db = []
    \<and> getRoots limit sortBy db = []
    \<and> getTop ty limit db = []
    \<and> reset db = db \<and> vacuum db = db"
  using assms
  by (simp add: open_db_def upsertItems_def getItemByPath_def getChildren_def getRoots_def
        getTop_def reset_def vacuum_def)

theorem not_open_operations_return_empty_witness:
  "(let db = \<lparr>db_ptr = False, items = [folderRow ''/a'' None]\<rparr>
    in \<not> db_ptr db
       \<and> \<not> db_ptr (snd (open_db False db))
       \<and> upsertItems [readRow (folderRow ''/b'' None)] db = db
       \<and> getItemByPath ''/a'' db = None
       \<and> getChildren None 200 0 ''size_desc'' True db = []
       \<and> getRoots 200 ''size_desc'' db = []
       \<and> getTop ''Folder'' 100 db = [])"
proof -
  define db where "db = \<lparr>db_ptr = False, items = [folderRow ''/a'' None]\<rparr>"
  have cl: "\<not> db_ptr db" by (simp add: db_def)
  from not_open_operations_return_empty [OF cl, of "[readRow (folderRow ''/b'' None)]"
      "''/a''" None 200 0 "''size_desc''" True "''Folder''"]
       not_open_operations_return_empty [OF cl, of "[]" "[]" None 100 0 "[]" True "''Folder''"]
  have "\<not> db_ptr (snd (open_db False db))
       \<and> upsertItems [readRow (folderRow ''/b'' None)] db = db
       \<and> getItemByPath ''/a'' db = None
       \<and> getChildren None 200 0 ''size_desc'' True db = []
       \<and> getRoots 200 ''size_desc'' db = []
       \<and> getTop ''Folder'' 100 db = []"
    by blast
  with cl show ?thesis
    unfolding Let_def db_def [symmetric] by blast
qed

section \<open>Properties of the deep scan\<close>

subsection \<open>Cancellation\<close>








subsection \<open>The aggregate of a subtree\<close>

lemma sint_max64: "sint (max64 a b) = max (sint a) (sint b)"
  by (simp add: max64_def max_def)

lemma latestOr0_nonneg: "0 \<le> latestOr0 fs"
  by (induction fs) (simp_all add: latestOr0_def)

lemma latestOr0_append: "latestOr0 (fs @ gs) = max (latestOr0 fs) (latestOr0 gs)"
proof (induction fs)
  case Nil
  show ?case using latestOr0_nonneg [of gs] by (simp add: latestOr0_def)
next
  case (Cons f fs)
  then show ?case by (simp add: latestOr0_def max.assoc)
qed

lemma filesIn_simps: "filesIn [] = []" "filesIn (e # es) = filesOf e @ filesIn es"
  by (simp_all add: filesIn_def)

lemma foldersIn_simps: "foldersIn [] = 0" "foldersIn (e # es) = foldersOf e + foldersIn es"
  by (simp_all add: foldersIn_def)

lemma agrees_refl: "0 \<le> sint (latestMs r) \<Longrightarrow> agrees r r [] 0"
  by (simp add: agrees_def latestOr0_def)

lemma agrees_trans:
  "agrees r1 r fs n \<Longrightarrow> agrees r2 r1 gs m \<Longrightarrow> agrees r2 r (fs @ gs) (n + m)"
  by (simp add: agrees_def latestOr0_append max.assoc)

lemma agrees_nonneg: "agrees r' r fs n \<Longrightarrow> 0 \<le> sint (latestMs r')"
  using latestOr0_nonneg [of fs] by (simp add: agrees_def)

lemma agrees_zero:
  "agrees r zeroResult fs n \<longleftrightarrow>
     ScanResult.sizeBytes r = sum_list (map fst fs)
     \<and> ScanResult.fileCount r = of_nat (length fs)
     \<and> ScanResult.folderCount r = of_nat n
     \<and> sint (latestMs r) = latestOr0 fs"
  using latestOr0_nonneg [of fs] by (simp add: agrees_def zeroResult_def)

lemma agrees_addFile:
  "0 \<le> sint (latestMs r) \<Longrightarrow> agrees (addFile r fsize lwt) r [(fsize, lwt)] 0"
  by (simp add: agrees_def addFile_def sint_max64 latestOr0_def)

lemma never_flag: "\<forall>k. \<not> cancelled run k \<Longrightarrow> \<not> flagSet run st"
  by (simp add: flagSet_def)

lemma scan_totals:
  "(\<forall>k. \<not> cancelled run k) \<longrightarrow>
     agrees (fst (scanFullAsync env run sp d es st)) zeroResult (filesIn es) (foldersIn es)"
  "(\<forall>k. \<not> cancelled run k) \<and> 0 \<le> sint (latestMs (fst acc)) \<longrightarrow>
     agrees (fst (fst (scanEntries env run sp d es acc st))) (fst acc) (filesIn es) (foldersIn es)"
  "(\<forall>k. \<not> cancelled run k) \<and> 0 \<le> sint (latestMs (fst acc)) \<longrightarrow>
     agrees (fst (fst (scanEntry env run sp d e acc st))) (fst acc) (filesOf e) (foldersOf e)"
  supply filesIn_simps [simp] foldersIn_simps [simp]
proof (induction env run sp d es st and env run sp d es acc st and env run sp d e acc st
       rule: scanFullAsync_scanEntries_scanEntry.induct)
  case (1 env run startPath dep entries st)
  show ?case
  proof
    assume nc: "\<forall>k. \<not> cancelled run k"
    then have nf: "\<not> flagSet run st" by (rule never_flag)
    have "0 \<le> sint (latestMs (fst (zeroResult, [])))" by (simp add: zeroResult_def)
    with 1 [OF nf] nc nf show "agrees (fst (scanFullAsync env run startPath dep entries st))
        zeroResult (filesIn entries) (foldersIn entries)"
      by (auto split: prod.splits)
  qed
next
  case (2 env run startPath dep acc st)
  then show ?case by (simp add: agrees_refl)
next
  case (3 env run startPath dep e es acc st)
  show ?case
  proof
    assume a: "(\<forall>k. \<not> cancelled run k) \<and> 0 \<le> sint (latestMs (fst acc))"
    then have nf: "\<not> flagSet run st" by (simp add: flagSet_def)
    obtain acc' st' where se: "scanEntry env run startPath dep e acc (afterLoad st) = (acc', st')"
      by (cases "scanEntry env run startPath dep e acc (afterLoad st)")
    from 3(1) [OF nf] a se have s1: "agrees (fst acc') (fst acc) (filesOf e) (foldersOf e)"
      by simp
    then have "0 \<le> sint (latestMs (fst acc'))" by (rule agrees_nonneg)
    with 3(2) [OF nf refl se [symmetric]] a
    have s2: "agrees (fst (fst (scanEntries env run startPath dep es acc' st'))) (fst acc')
                (filesIn es) (foldersIn es)"
      by simp
    from agrees_trans [OF s1 s2] nf se
    show "agrees (fst (fst (scanEntries env run startPath dep (e # es) acc st))) (fst acc)
            (filesIn (e # es)) (foldersIn (e # es))"
      by simp
  qed
next
  case (4 env run startPath dep childPath fsize lwt acc st)
  then show ?case by (simp add: Let_def agrees_addFile)
next
  case (6 env run startPath dep childPath sub ok acc st)
  show ?case
  proof
    assume a: "(\<forall>k. \<not> cancelled run k) \<and> 0 \<le> sint (latestMs (fst acc))"
    obtain subResult st1 where sf: "scanFullAsync env run childPath (dep + 1) sub st = (subResult, st1)"
      by (cases "scanFullAsync env run childPath (dep + 1) sub st")
    from 6 a sf have "agrees subResult zeroResult (filesIn sub) (foldersIn sub)"
      by simp
    then have "ScanResult.sizeBytes subResult = sum_list (map fst (filesIn sub))
       \<and> ScanResult.fileCount subResult = of_nat (length (filesIn sub))
       \<and> ScanResult.folderCount subResult = of_nat (foldersIn sub)
       \<and> sint (latestMs subResult) = latestOr0 (filesIn sub)"
      by (simp only: agrees_zero)
    then have "agrees (addSubResult (fst acc) subResult) (fst acc) (filesIn sub) (Suc (foldersIn sub))"
      by (simp add: agrees_def addSubResult_def sint_max64)
    then show "agrees (fst (fst (scanEntry env run startPath dep (Directory childPath sub ok) acc st)))
        (fst acc) (filesOf (Directory childPath sub ok)) (foldersOf (Directory childPath sub ok))"
      using sf by (simp add: filesIn_def foldersIn_def del: scanFullAsync.simps)
  qed
qed (simp_all add: agrees_refl)

lemma latestOr0_Max: "latestOr0 fs = Max (insert 0 (sint ` snd ` set fs))"
proof (induction fs)
  case Nil
  then show ?case by (simp add: latestOr0_def)
next
  case (Cons f fs)
  have "Max (insert 0 (sint ` snd ` set (f # fs)))
        = Max (insert (sint (snd f)) (insert 0 (sint ` snd ` set fs)))"
    by (simp add: insert_commute)
  also have "\<dots> = max (sint (snd f)) (Max (insert 0 (sint ` snd ` set fs)))"
    by (rule Max_insert) simp_all
  finally show ?case using Cons by (simp add: latestOr0_def)
qed

lemma unat_sum_list:
  "unat (sum_list ws :: 64 word) = sum_list (map unat ws) mod 2 ^ 64"
proof (induction ws)
  case Nil
  then show ?case by simp
next
  case (Cons w ws)
  have "unat (w + sum_list ws) = (unat w + unat (sum_list ws)) mod 2 ^ 64"
    by (simp add: unat_word_ariths)
  also have "\<dots> = (unat w + sum_list (map unat ws) mod 2 ^ 64) mod 2 ^ 64"
    by (simp add: Cons)
  also have "\<dots> = (unat w + sum_list (map unat ws)) mod 2 ^ 64"
    by (rule mod_add_right_eq)
  finally show ?case by simp
qed

lemma unat_of_nat32: "unat (of_nat n :: 32 word) = n mod 2 ^ 32"
  by (simp add: unat_of_nat)

text \<open>
  Claim C5, as stated, fails in its last part: \<^verbatim>\<open>latestMs\<close> starts at 0 and only
  grows, so it is not the latest modification time when every file of the subtree was
  modified before the epoch (a negative time): one file modified one millisecond
  before the epoch gives \<^verbatim>\<open>latestMs = 0\<close>.
\<close>

theorem deep_scan_latest_counterexample:
  "(let es = [RegularFile ''/d/f'' (Some 10) (Some (- 1))];
        r = fst (scanFullAsync exampleEnv runToEnd ''/d'' 0 es freshScanner)
    in sint (latestMs r) = 0 \<and> Max (sint ` snd ` set (filesIn es)) = - 1)"
  by code_simp

text \<open>
  Claim C5, amended. For a scan that is not cancelled, the aggregate returned for a
  subtree has: as \<^verbatim>\<open>sizeBytes\<close> the sum of the sizes of all regular files of the
  subtree, whatever their size (in 64-bit arithmetic); as \<^verbatim>\<open>fileCount\<close> their number
  and as \<^verbatim>\<open>folderCount\<close> the number of directories below the start, each
  subdirectory counting its content and one for itself (in 32-bit arithmetic); as
  \<^verbatim>\<open>latestMs\<close> the greatest of 0 and the modification times of these files.
\<close>

theorem deep_scan_aggregate:
  assumes "\<forall>k. \<not> cancelled run k"
  shows "(let r = fst (scanFullAsync env run sp d es st); fs = filesIn es
    in unat (ScanResult.sizeBytes r) = sum_list (map (unat \<circ> fst) fs) mod 2 ^ 64
     \<and> unat (ScanResult.fileCount r) = length fs mod 2 ^ 32
     \<and> unat (ScanResult.folderCount r) = foldersIn es mod 2 ^ 32
     \<and> sint (latestMs r) = Max (insert 0 (sint ` snd ` set fs)))"
proof -
  from scan_totals(1) [of run env sp d es st] assms
  have "agrees (fst (scanFullAsync env run sp d es st)) zeroResult (filesIn es) (foldersIn es)"
    by blast
  then show ?thesis
    unfolding agrees_zero Let_def
    by (simp add: unat_sum_list unat_of_nat32 latestOr0_Max comp_def del: scanFullAsync.simps)
qed

theorem deep_scan_aggregate_witness:
  "(let es = [RegularFile ''/d/small'' (Some 51200) (Some 1000),
              Directory ''/d/s''
                [RegularFile ''/d/s/big'' (Some 153600) (Some 3000), Other ''/d/s/dev'',
                 Directory ''/d/s/t'' [] True] True];
        r = fst (scanFullAsync exampleEnv runToEnd ''/d'' 0 es freshScanner)
    in (\<forall>k. \<not> cancelled runToEnd k)
       \<and> unat (ScanResult.sizeBytes r) = 204800
       \<and> unat (ScanResult.fileCount r) = 2
       \<and> unat (ScanResult.folderCount r) = 2
       \<and> sint (latestMs r) = 3000)"
proof -
  define es where
    "es = [RegularFile ''/d/small'' (Some 51200) (Some 1000),
              Directory ''/d/s''
                [RegularFile ''/d/s/big'' (Some 153600) (Some 3000), Other ''/d/s/dev'',
                 Directory ''/d/s/t'' [] True] True]"
  define r where "r = fst (scanFullAsync exampleEnv runToEnd ''/d'' 0 es freshScanner)"
  have nc: "\<forall>k. \<not> cancelled runToEnd k" by (simp add: runToEnd_def)
  have fs: "filesIn es = [(51200, 1000), (153600, 3000)]"
    by (simp add: es_def filesIn_def)
  have v1: "sum_list (map (unat \<circ> fst) (filesIn es)) mod 2 ^ 64 = 204800"
    by (simp add: fs)
  have v2: "length (filesIn es) mod 2 ^ 32 = 2"
    by (simp add: fs)
  have v3: "foldersIn es mod 2 ^ 32 = 2"
    by (simp add: es_def foldersIn_def)
  have v4: "Max (insert 0 (sint ` snd ` set (filesIn es))) = 3000"
    by (simp add: fs)
  from deep_scan_aggregate [OF nc, of exampleEnv "''/d''" 0 es freshScanner]
  have "unat (ScanResult.sizeBytes r) = 204800
       \<and> unat (ScanResult.fileCount r) = 2
       \<and> unat (ScanResult.folderCount r) = 2
       \<and> sint (latestMs r) = 3000"
    unfolding Let_def r_def [symmetric] v1 v2 v3 v4 .
  with nc show ?thesis
    unfolding Let_def es_def [symmetric] r_def [symmetric] by blast
qed

subsection \<open>Progress reporting\<close>

lemma snd_scanFullAsync:
  "snd (scanFullAsync env run sp d es st) =
     (if flagSet run st then afterLoad st
      else snd (scanEntries env run sp d es (zeroResult, []) (afterLoad st)))"
  by (simp split: prod.splits)

lemma scan_rel:
  assumes T_refl: "\<And>run st. T run st st"
    and T_trans: "\<And>run a b c. T run a b \<Longrightarrow> T run b c \<Longrightarrow> T run a c"
    and load: "\<And>run st. T run st (afterLoad st)"
    and rep: "\<And>run sp st. T run st (reportProgress run sp st)"
    and inc: "\<And>run sp st.
        T run st (reportProgress run sp (st\<lparr>m_itemsScanned := m_itemsScanned st + 1\<rparr>))"
  shows "T run st (snd (scanFullAsync env run sp d es st))"
    and "T run st (snd (scanEntries env run sp d es acc st))"
    and "T run st (snd (scanEntry env run sp d e acc st))"
proof (induction env run sp d es st and env run sp d es acc st and env run sp d e acc st
       rule: scanFullAsync_scanEntries_scanEntry.induct)
  case (1 env run startPath dep entries st)
  show ?case
  proof (cases "flagSet run st")
    case True
    then show ?thesis by (simp add: load)
  next
    case False
    from T_trans [OF load 1 [OF False]] False show ?thesis
      by (simp add: snd_scanFullAsync del: scanFullAsync.simps)
  qed
next
  case (2 env run startPath dep acc st)
  show ?case by (simp add: T_refl)
next
  case (3 env run startPath dep e es acc st)
  show ?case
  proof (cases "flagSet run st")
    case True
    then show ?thesis by (simp add: load)
  next
    case False
    obtain acc' st' where se: "scanEntry env run startPath dep e acc (afterLoad st) = (acc', st')"
      by (cases "scanEntry env run startPath dep e acc (afterLoad st)")
    from 3(1) [OF False] se have "T run (afterLoad st) st'" by simp
    from T_trans [OF load this] have a: "T run st st'" .
    from 3(2) [OF False refl se [symmetric]]
    have "T run st' (snd (scanEntries env run startPath dep es acc' st'))" .
    from T_trans [OF a this] False se show ?thesis by simp
  qed
next
  case (4 env run startPath dep childPath fsize lwt acc st)
  show ?case by (simp add: Let_def inc)
next
  case (6 env run startPath dep childPath sub ok acc st)
  obtain subResult st1 where sf: "scanFullAsync env run childPath (dep + 1) sub st = (subResult, st1)"
    by (cases "scanFullAsync env run childPath (dep + 1) sub st")
  with 6 have "T run st st1" by simp
  from T_trans [OF this rep] sf show ?case by (simp del: scanFullAsync.simps)
next
  case (7 env run startPath dep childPath acc st)
  show ?case by (simp add: rep)
qed (simp_all add: T_refl)

lemma spaced_append:
  "spaced l (xs @ ys) = (spaced l xs \<and> spaced (lastReported l xs) ys)"
  by (induction xs arbitrary: l) auto

lemma lastReported_append:
  "lastReported l (xs @ ys) = lastReported (lastReported l xs) ys"
  by (induction xs arbitrary: l) auto

lemma reports_refl: "reports run st st"
  by (simp add: reports_def)

lemma reports_trans:
  assumes "reports run a b" and "reports run b c"
  shows "reports run a c"
proof -
  from assms(1) obtain n1 where 1: "reported b = reported a @ n1"
    "list_all (\<lambda>e. ScanProgress.state e = ''running'' \<and> ScanProgress.runId e = rid run) n1"
    "if progressCb run
     then spaced (m_lastProgressUpdate a) n1
          \<and> m_lastProgressUpdate b = lastReported (m_lastProgressUpdate a) n1
     else n1 = []"
    unfolding reports_def by blast
  from assms(2) obtain n2 where 2: "reported c = reported b @ n2"
    "list_all (\<lambda>e. ScanProgress.state e = ''running'' \<and> ScanProgress.runId e = rid run) n2"
    "if progressCb run
     then spaced (m_lastProgressUpdate b) n2
          \<and> m_lastProgressUpdate c = lastReported (m_lastProgressUpdate b) n2
     else n2 = []"
    unfolding reports_def by blast
  have "reported c = reported a @ (n1 @ n2)" using 1(1) 2(1) by simp
  moreover have "list_all (\<lambda>e. ScanProgress.state e = ''running'' \<and> ScanProgress.runId e = rid run)
      (n1 @ n2)"
    using 1(2) 2(2) by simp
  moreover have "if progressCb run
     then spaced (m_lastProgressUpdate a) (n1 @ n2)
          \<and> m_lastProgressUpdate c = lastReported (m_lastProgressUpdate a) (n1 @ n2)
     else n1 @ n2 = []"
    using 1(3) 2(3) by (auto simp: spaced_append lastReported_append split: if_splits)
  ultimately show ?thesis unfolding reports_def by blast
qed

lemma reports_afterLoad: "reports run st (afterLoad st)"
  by (simp add: reports_def afterLoad_def)

lemma reports_reportProgress: "reports run st (reportProgress run sp st)"
  by (auto simp: reports_def reportProgress_def Let_def)

lemma reports_count: "reports run st (st\<lparr>m_itemsScanned := c\<rparr>)"
  by (simp add: reports_def)

lemma reports_scan:
  "reports run st (snd (scanFullAsync env run sp d es st))"
  by (rule scan_rel(1) [of reports])
     (blast intro: reports_refl reports_trans reports_afterLoad reports_reportProgress
        reports_count)+

lemma lag_reportProgress: "lag (reportProgress run sp st) < PROGRESS_INTERVAL"
  by (simp add: lag_def reportProgress_def Let_def PROGRESS_INTERVAL_def)

lemma keepsUp_scan:
  "keepsUp run st (snd (scanFullAsync env run sp d es st))"
  by (rule scan_rel(1) [of keepsUp])
     (simp_all add: keepsUp_def lag_reportProgress, simp add: lag_def afterLoad_def)

lemma counted_same: "m_itemsScanned st' = m_itemsScanned st \<Longrightarrow> counted run [] st st'"
  by (simp add: counted_def)

lemma counted_break:
  "flagSet run st \<Longrightarrow> m_itemsScanned st' = m_itemsScanned st \<Longrightarrow> counted run fs st st'"
  by (auto simp: counted_def flagSet_def intro!: exI [of _ 0])

lemma counted_trans:
  assumes "counted run fs a b" and "counted run gs b c"
  shows "counted run (fs @ gs) a c"
proof -
  from assms(1) obtain n where n: "n \<le> length fs" "m_itemsScanned b = m_itemsScanned a + of_nat n"
    "(\<forall>k. \<not> cancelled run k) \<longrightarrow> n = length fs"
    unfolding counted_def by blast
  from assms(2) obtain m where m: "m \<le> length gs" "m_itemsScanned c = m_itemsScanned b + of_nat m"
    "(\<forall>k. \<not> cancelled run k) \<longrightarrow> m = length gs"
    unfolding counted_def by blast
  have "n + m \<le> length (fs @ gs)" using n(1) m(1) by simp
  moreover have "m_itemsScanned c = m_itemsScanned a + of_nat (n + m)"
    using n(2) m(2) by simp
  moreover have "(\<forall>k. \<not> cancelled run k) \<longrightarrow> n + m = length (fs @ gs)"
    using n(3) m(3) by simp
  ultimately show ?thesis unfolding counted_def by blast
qed

lemma counted_nil_left: "counted run [] a b \<Longrightarrow> counted run fs b c \<Longrightarrow> counted run fs a c"
  using counted_trans [of run "[]" a b fs c] by simp

lemma counted_nil_right: "counted run fs a b \<Longrightarrow> counted run [] b c \<Longrightarrow> counted run fs a c"
  using counted_trans [of run fs a b "[]" c] by simp

lemma items_afterLoad: "m_itemsScanned (afterLoad st) = m_itemsScanned st"
  by (simp add: afterLoad_def)

lemma items_reportProgress: "m_itemsScanned (reportProgress run sp st) = m_itemsScanned st"
  by (simp add: reportProgress_def Let_def)

lemma counted_scan:
  "counted run (filesIn es) st (snd (scanFullAsync env run sp d es st))"
  "counted run (filesIn es) st (snd (scanEntries env run sp d es acc st))"
  "counted run (filesOf e) st (snd (scanEntry env run sp d e acc st))"
  supply filesIn_simps [simp] items_afterLoad [simp] items_reportProgress [simp]
proof (induction env run sp d es st and env run sp d es acc st and env run sp d e acc st
       rule: scanFullAsync_scanEntries_scanEntry.induct)
  case (1 env run startPath dep entries st)
  show ?case
  proof (cases "flagSet run st")
    case True
    then show ?thesis by (simp add: counted_break)
  next
    case False
    have "counted run [] st (afterLoad st)" by (simp add: counted_same)
    from counted_nil_left [OF this 1 [OF False]] False show ?thesis
      by (simp add: snd_scanFullAsync del: scanFullAsync.simps)
  qed
next
  case (2 env run startPath dep acc st)
  show ?case by (simp add: counted_same)
next
  case (3 env run startPath dep e es acc st)
  show ?case
  proof (cases "flagSet run st")
    case True
    then show ?thesis by (simp add: counted_break)
  next
    case False
    obtain acc' st' where se: "scanEntry env run startPath dep e acc (afterLoad st) = (acc', st')"
      by (cases "scanEntry env run startPath dep e acc (afterLoad st)")
    have l: "counted run [] st (afterLoad st)" by (simp add: counted_same)
    from 3(1) [OF False] se have "counted run (filesOf e) (afterLoad st) st'" by simp
    from counted_nil_left [OF l this] have a: "counted run (filesOf e) st st'" .
    from 3(2) [OF False HOL.refl se [symmetric]]
    have "counted run (filesIn es) st' (snd (scanEntries env run startPath dep es acc' st'))" .
    from counted_trans [OF a this] False se show ?thesis by simp
  qed
next
  case (4 env run startPath dep childPath fsize lwt acc st)
  show ?case by (auto simp: Let_def counted_def intro!: exI [of _ "Suc 0"])
next
  case (6 env run startPath dep childPath sub ok acc st)
  obtain subResult st1 where sf: "scanFullAsync env run childPath (dep + 1) sub st = (subResult, st1)"
    by (cases "scanFullAsync env run childPath (dep + 1) sub st")
  with 6 have "counted run (filesIn sub) st st1" by simp
  moreover have "counted run [] st1 (reportProgress run startPath st1)"
    by (simp add: counted_same)
  ultimately have "counted run (filesIn sub) st (reportProgress run startPath st1)"
    by (rule counted_nil_right)
  then show ?case using sf by (simp add: filesIn_def del: scanFullAsync.simps)
qed (simp_all add: counted_same)

text \<open>
  Claim C8, as stated, fails: the counter is not a count of all entries observed. Only
  a regular file whose size and time could be read raises \<^verbatim>\<open>itemsScanned_\<close>; a
  directory or an entry of another kind does not. A scan of a directory that holds a
  subdirectory and a device node observes two entries and leaves the counter at 0.
\<close>

theorem progress_counts_files_only_counterexample:
  "(let es = [Directory ''/d/s'' [] True, Other ''/d/dev''];
        st' = snd (scanFullAsync exampleEnv runToEnd ''/d'' 0 es freshScanner)
    in length es = 2 \<and> m_itemsScanned st' = 0 \<and> reported st' = [])"
  by (simp add: runToEnd_def freshScanner_def flagSet_def afterLoad_def reportProgress_def
        PROGRESS_INTERVAL_def Let_def)

text \<open>
  Claim C8, amended, for the scanning thread on its own (no other thread writes the two
  counters). A deep scan from state \<open>st\<close> to state \<open>st'\<close>
  \<^item> raises \<^verbatim>\<open>itemsScanned_\<close> by the number \<open>n\<close> of regular files it has scanned,
    all regular files of the subtree when the run is not cancelled;
  \<^item> hands the callback events \<open>new\<close> that all have the run id of the run and the
    state \<^verbatim>\<open>"running"\<close>, never another state;
  \<^item> reports a count only when it is at least 5000 above the count reported last, so
    no two events report counts less than 5000 apart;
  \<^item> and does not fall behind: if the count was less than 5000 ahead of the count
    reported last before the scan, it is so after the scan.
\<close>

theorem progress_events_running_and_spaced:
  "\<exists>n new.
     n \<le> length (filesIn es)
     \<and> m_itemsScanned (snd (scanFullAsync env run sp d es st)) = m_itemsScanned st + of_nat n
     \<and> ((\<forall>k. \<not> cancelled run k) \<longrightarrow> n = length (filesIn es))
     \<and> reported (snd (scanFullAsync env run sp d es st)) = reported st @ new
     \<and> list_all (\<lambda>e. ScanProgress.state e = ''running'' \<and> ScanProgress.runId e = rid run) new
     \<and> (if progressCb run
         then spaced (m_lastProgressUpdate st) new
              \<and> m_lastProgressUpdate (snd (scanFullAsync env run sp d es st))
                  = lastReported (m_lastProgressUpdate st) new
         else new = [])
     \<and> (lag st < PROGRESS_INTERVAL
          \<longrightarrow> lag (snd (scanFullAsync env run sp d es st)) < PROGRESS_INTERVAL)"
  using counted_scan(1) [of run es st env sp d] reports_scan [of run st env sp d es]
    keepsUp_scan [of run st env sp d es]
  unfolding counted_def reports_def keepsUp_def
  by blast

theorem progress_events_running_and_spaced_witness:
  "(let st = freshScanner\<lparr>m_itemsScanned := 4999\<rparr>;
        es = [RegularFile ''/d/a'' (Some 10) (Some 7), Directory ''/d/s'' [] True,
              RegularFile ''/d/b'' (Some 20) (Some 8)];
        st' = snd (scanFullAsync exampleEnv runToEnd ''/d'' 0 es st)
    in (\<forall>k. \<not> cancelled runToEnd k) \<and> progressCb runToEnd \<and> lag st < PROGRESS_INTERVAL
       \<and> m_itemsScanned st' = 5001
       \<and> reported st' =
           [\<lparr>ScanProgress.runId = ''run-1'', itemsScanned = 5000, currentPath = ''/d'',
             state = ''running'', message = []\<rparr>]
       \<and> spaced (m_lastProgressUpdate st) (reported st')
       \<and> m_lastProgressUpdate st' = 5000
       \<and> lag st' < PROGRESS_INTERVAL)"
proof -
  define st where "st = freshScanner\<lparr>m_itemsScanned := 4999\<rparr>"
  define es where
    "es = [RegularFile ''/d/a'' (Some 10) (Some 7), Directory ''/d/s'' [] True,
           RegularFile ''/d/b'' (Some 20) (Some 8)]"
  define st' where "st' = snd (scanFullAsync exampleEnv runToEnd ''/d'' 0 es st)"
  have nc: "\<forall>k. \<not> cancelled runToEnd k" by (simp add: runToEnd_def)
  have cb: "progressCb runToEnd" by (simp add: runToEnd_def)
  have l0: "lag st < PROGRESS_INTERVAL"
    by (simp add: lag_def st_def freshScanner_def PROGRESS_INTERVAL_def)
  have len: "length (filesIn es) = 2" by (simp add: es_def filesIn_def)
  have r0: "reported st = []" and m0: "m_itemsScanned st = 4999"
    and u0: "m_lastProgressUpdate st = 0"
    by (simp_all add: st_def freshScanner_def)
  have ev: "reported st' =
           [\<lparr>ScanProgress.runId = ''run-1'', itemsScanned = 5000, currentPath = ''/d'',
             state = ''running'', message = []\<rparr>]"
    unfolding st'_def st_def es_def
    by (simp add: runToEnd_def freshScanner_def flagSet_def afterLoad_def reportProgress_def
          PROGRESS_INTERVAL_def Let_def)
  from progress_events_running_and_spaced [of es exampleEnv runToEnd "''/d''" 0 st]
  obtain n new where
    n: "(\<forall>k. \<not> cancelled runToEnd k) \<longrightarrow> n = length (filesIn es)"
    and c: "m_itemsScanned st' = m_itemsScanned st + of_nat n"
    and r: "reported st' = reported st @ new"
    and s: "if progressCb runToEnd
         then spaced (m_lastProgressUpdate st) new
              \<and> m_lastProgressUpdate st' = lastReported (m_lastProgressUpdate st) new
         else new = []"
    and k: "lag st < PROGRESS_INTERVAL \<longrightarrow> lag st' < PROGRESS_INTERVAL"
    unfolding st'_def [symmetric] by blast
  from n nc len have "n = 2" by simp
  with c m0 have c': "m_itemsScanned st' = 5001" by simp
  from r r0 have new: "new = reported st'" by simp
  from s cb have sp: "spaced (m_lastProgressUpdate st) (reported st')"
    and lu: "m_lastProgressUpdate st' = lastReported (m_lastProgressUpdate st) (reported st')"
    unfolding new by simp_all
  from lu have lu': "m_lastProgressUpdate st' = 5000" unfolding ev by simp
  from k l0 have k': "lag st' < PROGRESS_INTERVAL" by simp
  from nc cb l0 c' ev sp lu' k' show ?thesis
    unfolding Let_def st_def [symmetric] es_def [symmetric] st'_def [symmetric]
    by simp
qed

subsection \<open>Small files and the batch of a level\<close>

text \<open>
  Claim C1 on a directory with a file of 50 KiB and a file of 150 KiB. Both files are
  counted in the aggregate. At the end of the loop \<^verbatim>\<open>batchItems\<close> holds a record for
  the large file and none for the small one. The function then returns the aggregate
  (and leaves its counters): the batch goes out of scope, no store is written, and no
  row for the large file can be queried.
\<close>

theorem deep_scan_batch_not_persisted:
  "(let small = RegularFile ''/d/small'' (Some (50 * 1024)) (Some 1000);
        big = RegularFile ''/d/big'' (Some (150 * 1024)) (Some 2000);
        loop = scanEntries exampleEnv runToEnd ''/d'' 0 [small, big] (zeroResult, [])
                 (afterLoad freshScanner)
    in fst (fst loop)
         = \<lparr>ScanResult.sizeBytes = 204800, fileCount = 2, folderCount = 0, latestMs = 2000\<rparr>
       \<and> snd (fst loop) = [deepFileRec exampleEnv runToEnd ''/d'' 0 ''/d/big'' (150 * 1024) 2000]
       \<and> scanFullAsync exampleEnv runToEnd ''/d'' 0 [small, big] freshScanner
           = (fst (fst loop), snd loop))"
  by (simp add: runToEnd_def freshScanner_def flagSet_def afterLoad_def addFile_def
        zeroResult_def max64_def MIN_FILE_SIZE_FOR_DB_def reportProgress_def
        PROGRESS_INTERVAL_def Let_def)

section \<open>Properties of the shallow scan\<close>

lemma sumsUp_refl: "sumsUp sp acc acc []"
  by (simp add: sumsUp_def)

lemma sumsUp_step:
  "sumsUp sp acc acc1 [c] \<Longrightarrow> sumsUp sp acc1 acc2 cs \<Longrightarrow> sumsUp sp acc acc2 (c # cs)"
  by (auto simp: sumsUp_def)

lemma shallowLoop_sums:
  "\<exists>children. sumsUp sp acc (shallowLoop env sp ri es acc) children"
proof (induction env sp ri es acc rule: shallowLoop.induct)
  case (1 env startPath ri acc)
  show ?case using sumsUp_refl by auto
next
  case (2 env startPath ri p fsize lwt es acc)
  let ?acc1 = "acc\<lparr>totalSize := totalSize acc + fsize,
            totalFiles := totalFiles acc + 1,
            latest := max64 (latest acc) lwt,
            collected := collected acc @ [shallowFileRec env startPath ri p fsize lwt]\<rparr>"
  from 2 obtain cs where cs: "sumsUp startPath ?acc1 (shallowLoop env startPath ri es ?acc1) cs"
    by blast
  have "sumsUp startPath acc ?acc1 [shallowFileRec env startPath ri p fsize lwt]"
    by (simp add: sumsUp_def shallowFileRec_def childOk_def)
  from sumsUp_step [OF this cs] show ?case by auto
next
  case (4 env startPath ri p sub ok es acc)
  define dirStats where "dirStats = statDirShallow sub zeroResult"
  let ?acc1 = "acc\<lparr>totalSize := totalSize acc + ScanResult.sizeBytes dirStats,
                totalFolders := totalFolders acc + 1,
                latest := max64 (latest acc) (latestMs dirStats),
                collected := collected acc @ [shallowDirRec env startPath ri p dirStats]\<rparr>"
  from 4 [OF dirStats_def] obtain cs where
    cs: "sumsUp startPath ?acc1 (shallowLoop env startPath ri es ?acc1) cs"
    by blast
  have "sumsUp startPath acc ?acc1 [shallowDirRec env startPath ri p dirStats]"
    by (simp add: sumsUp_def shallowDirRec_def childOk_def)
  from sumsUp_step [OF this cs] show ?case by (auto simp: dirStats_def Let_def)
qed simp_all

lemma getParent_eq:
  "getParent env p =
     (if parent_path env p = [] \<or> parent_path env p = p then [] else parent_path env p)"
  by (simp add: getParent_def Let_def)

text \<open>
  Claim C6, as stated, fails. The record of \<open>startPath\<close> counts the children it has
  emitted; it does not add up their counts. For a directory that holds one
  subdirectory with one file in it, the child record has \<^verbatim>\<open>fileCount = 1\<close> and
  \<^verbatim>\<open>folderCount = 0\<close>, and the record of \<open>startPath\<close> has \<^verbatim>\<open>fileCount = 0\<close> and
  \<^verbatim>\<open>folderCount = 1\<close>. And a \<open>startPath\<close> that cannot be listed gives no record
  at all.
\<close>

theorem shallow_scan_root_counts_counterexample:
  "(let out = scanShallow exampleEnv ''/d'' ''run-1''
                [Directory ''/d/s'' [RegularFile ''/d/s/f'' (Some 10) (Some 5)] True] True None;
        children = butlast out; root = last out
    in path root = ''/d'' \<and> depth root = 0
       \<and> Item.fileCount root = 0 \<and> sum_list (map Item.fileCount children) = 1
       \<and> Item.folderCount root = 1 \<and> sum_list (map Item.folderCount children) = 0)
   \<and> scanShallow exampleEnv ''/nowhere'' ''run-1'' [] False None = []"
  by (simp add: scanShallow_def Let_def zeroResult_def shallowDirRec_def max64_def exampleEnv_def
        getParent_def)

text \<open>
  Claim C6, amended. When the listing of \<open>startPath\<close> completes, a shallow scan
  returns the child records, all at depth 1 with parent \<open>startPath\<close>, followed by one
  record for \<open>startPath\<close>, the only one at depth 0. Its parent is
  \<^verbatim>\<open>parent_path\<close> of \<open>startPath\<close>, or empty when that is empty or \<open>startPath\<close>
  itself (a file system root). Its \<^verbatim>\<open>sizeBytes\<close> is the sum of \<^verbatim>\<open>sizeBytes\<close> over
  the child records, its \<^verbatim>\<open>fileCount\<close> the number of file records among them and
  its \<^verbatim>\<open>folderCount\<close> the number of folder records among them.
\<close>

theorem shallow_scan_root_node:
  assumes "ok"
  shows "\<exists>children root.
      scanShallow env sp ri es ok rootLwt = children @ [root]
    \<and> list_all (\<lambda>c. depth c = 1 \<and> parent c = sp) children
    \<and> filter (\<lambda>r. depth r = 0) (scanShallow env sp ri es ok rootLwt) = [root]
    \<and> path root = sp \<and> depth root = 0 \<and> type root = ''Folder''
    \<and> parent root =
        (if parent_path env sp = [] \<or> parent_path env sp = sp then [] else parent_path env sp)
    \<and> Item.sizeBytes root = sum_list (map Item.sizeBytes children)
    \<and> Item.fileCount root = of_nat (length (filter (\<lambda>c. type c = ''File'') children))
    \<and> Item.folderCount root = of_nat (length (filter (\<lambda>c. type c = ''Folder'') children))"
proof -
  let ?init = "\<lparr>totalSize = 0, totalFiles = 0, totalFolders = 0, latest = 0, collected = []\<rparr>"
  let ?fin = "shallowLoop env sp ri es ?init"
  from shallowLoop_sums [of sp ?init env ri es]
  obtain children where c: "sumsUp sp ?init ?fin children" by blast
  then have col: "collected ?fin = children"
    and ch: "list_all (childOk sp) children"
    and sz: "totalSize ?fin = sum_list (map Item.sizeBytes children)"
    and fc: "totalFiles ?fin = of_nat (length (filter (\<lambda>c. type c = ''File'') children))"
    and dc: "totalFolders ?fin = of_nat (length (filter (\<lambda>c. type c = ''Folder'') children))"
    by (simp_all add: sumsUp_def)
  from ch have ch': "list_all (\<lambda>c. depth c = 1 \<and> parent c = sp) children"
    by (simp add: list_all_iff childOk_def)
  then have nz: "filter (\<lambda>r. depth r = 0) children = []"
    by (auto simp: list_all_iff filter_empty_conv)
  obtain root where out: "scanShallow env sp ri es ok rootLwt = children @ [root]"
    and root: "path root = sp" "depth root = 0" "type root = ''Folder''"
      "parent root = getParent env sp" "Item.sizeBytes root = totalSize ?fin"
      "Item.fileCount root = totalFiles ?fin" "Item.folderCount root = totalFolders ?fin"
    using assms col by (simp add: scanShallow_def Let_def)
  from out root(2) nz have "filter (\<lambda>r. depth r = 0) (scanShallow env sp ri es ok rootLwt) = [root]"
    by simp
  with out ch' root show ?thesis
    unfolding sz fc dc getParent_eq by blast
qed

theorem shallow_scan_root_node_witness:
  "(let es = [RegularFile ''/d/a'' (Some 10) (Some 7),
              Directory ''/d/s''
                [RegularFile ''/d/s/b'' (Some 20) (Some 9), Directory ''/d/s/t'' [] True] True];
        out = scanShallow exampleEnv ''/d'' ''run-1'' es True (Some 5)
    in map path out = [''/d/a'', ''/d/s'', ''/d'']
       \<and> (\<exists>children root.
             out = children @ [root]
             \<and> filter (\<lambda>r. depth r = 0) out = [root]
             \<and> path root = ''/d'' \<and> parent root = ''/''
             \<and> Item.sizeBytes root = 30
             \<and> Item.fileCount root = 1
             \<and> Item.folderCount root = 1))"
proof -
  define es where
    "es = [RegularFile ''/d/a'' (Some 10) (Some 7),
              Directory ''/d/s''
                [RegularFile ''/d/s/b'' (Some 20) (Some 9), Directory ''/d/s/t'' [] True] True]"
  define out where "out = scanShallow exampleEnv ''/d'' ''run-1'' es True (Some 5)"
  have ev: "out =
     [shallowFileRec exampleEnv ''/d'' ''run-1'' ''/d/a'' 10 7,
      shallowDirRec exampleEnv ''/d'' ''run-1'' ''/d/s''
        \<lparr>ScanResult.sizeBytes = 20, fileCount = 1, folderCount = 1, latestMs = 9\<rparr>,
      last out]"
    unfolding out_def es_def
    by (simp add: scanShallow_def Let_def zeroResult_def max64_def)
  have paths: "map path out = [''/d/a'', ''/d/s'', ''/d'']"
    unfolding out_def es_def
    by (simp add: scanShallow_def Let_def zeroResult_def max64_def shallowFileRec_def
          shallowDirRec_def)
  have pp: "parent_path exampleEnv ''/d'' = ''/''" by (simp add: exampleEnv_def)
  from shallow_scan_root_node [of True exampleEnv "''/d''" "''run-1''" es "Some 5"]
  obtain children root where
    o: "out = children @ [root]"
    and f: "filter (\<lambda>r. depth r = 0) out = [root]"
    and p: "path root = ''/d''"
    and q: "parent root =
        (if parent_path exampleEnv ''/d'' = [] \<or> parent_path exampleEnv ''/d'' = ''/d''
         then [] else parent_path exampleEnv ''/d'')"
    and s: "Item.sizeBytes root = sum_list (map Item.sizeBytes children)"
    and c: "Item.fileCount root = of_nat (length (filter (\<lambda>c. type c = ''File'') children))"
    and d: "Item.folderCount root = of_nat (length (filter (\<lambda>c. type c = ''Folder'') children))"
    unfolding out_def [symmetric] by blast
  have "butlast out = children" unfolding o by simp
  with ev have ch: "children =
     [shallowFileRec exampleEnv ''/d'' ''run-1'' ''/d/a'' 10 7,
      shallowDirRec exampleEnv ''/d'' ''run-1'' ''/d/s''
        \<lparr>ScanResult.sizeBytes = 20, fileCount = 1, folderCount = 1, latestMs = 9\<rparr>]"
    by (metis butlast.simps(2) list.distinct(1) butlast_snoc append_Cons append_Nil)
  from q have q': "parent root = ''/''" unfolding pp by simp
  from s have s': "Item.sizeBytes root = 30"
    unfolding ch by (simp add: shallowFileRec_def shallowDirRec_def)
  from c have c': "Item.fileCount root = 1"
    unfolding ch by (simp add: shallowFileRec_def shallowDirRec_def)
  from d have d': "Item.folderCount root = 1"
    unfolding ch by (simp add: shallowFileRec_def shallowDirRec_def)
  from paths o f p q' s' c' d' show ?thesis
    unfolding Let_def es_def [symmetric] out_def [symmetric] by blast
qed

end
